theory Spec2Isabelle
  imports Complex_Main "HOL-Library.Word"
begin

section \<open>Values, errors and the object store\<close>

text \<open>
  The metrics of \<^verbatim>\<open>fairseq2/callbacks/metrics.py\<close> are Python objects that are mutated in
  place and handed around by reference (a registry entry, a peer in \<^verbatim>\<open>merge_state\<close>), so
  the model keeps them in a store from addresses to objects. Exceptions are values of
  \<open>error\<close>; a method returns its result (or the error) together with the store it leaves.

  Integer tensors keep their width: \<^verbatim>\<open>int64\<close> is \<open>64 word\<close>, \<^verbatim>\<open>int32\<close> is \<open>32 word\<close>,
  and \<open>+\<close> wraps. Tensors of a floating dtype are \<^verbatim>\<open>float32\<close> (the default dtype of
  \<^verbatim>\<open>torch.tensor(0.0)\<close>): every operation on them rounds its result to \<^verbatim>\<open>float32\<close>.
\<close>

datatype error =
  ValueError | AttributeError | RuntimeError | IndexError | KeyError | OverflowError

section \<open>Floating point\<close>

text \<open>
  A floating-point value: a number, an infinity or not-a-number. The two zeros are not
  told apart (the clock never reads \<open>-0.0\<close>, and no count is negative).
\<close>

datatype pyfloat = Fin real | PosInf | NegInf | NaN

text \<open>The nearest integer, the even one of the two when \<open>q\<close> lies half-way.\<close>

definition round_half_even :: "real \<Rightarrow> int" where
  "round_half_even q =
     (let f = \<lfloor>q\<rfloor>; d = q - of_int f
      in if d < 1 / 2 then f
         else if 1 / 2 < d then f + 1
         else if even f then f else f + 1)"

text \<open>
  The exponent of the last place of a \<^verbatim>\<open>float32\<close> near \<open>x\<close>: 24 significant bits,
  and the spacing of the subnormals, \<open>2 powi - 149\<close>, below \<open>2 powi - 126\<close>.
\<close>

definition ulp_exponent :: "real \<Rightarrow> int" where
  "ulp_exponent x = max \<lfloor>log 2 \<bar>x\<bar>\<rfloor> (- 126) - 23"

text \<open>
  Rounding a real to \<^verbatim>\<open>float32\<close>: to the nearest multiple of the last place, ties to
  even; a result of magnitude \<open>2 ^ 128\<close> or more is an infinity.
\<close>

definition round32 :: "real \<Rightarrow> pyfloat" where
  "round32 x =
     (if x = 0 then Fin 0
      else (let e = ulp_exponent x;
                y = of_int (round_half_even (x / 2 powi e)) * 2 powi e
            in if 2 ^ 128 \<le> \<bar>y\<bar> then (if 0 < x then PosInf else NegInf)
               else Fin y))"

text \<open>A Python float stored in a \<^verbatim>\<open>float32\<close> tensor (\<^verbatim>\<open>torch.tensor(x)\<close>).\<close>

fun to_float32 :: "pyfloat \<Rightarrow> pyfloat" where
  "to_float32 (Fin x) = round32 x"
| "to_float32 v = v"

text \<open>\<^verbatim>\<open>-a\<close> on a \<^verbatim>\<open>float32\<close> tensor: exact.\<close>

fun neg32 :: "pyfloat \<Rightarrow> pyfloat" where
  "neg32 (Fin a) = Fin (- a)"
| "neg32 PosInf = NegInf"
| "neg32 NegInf = PosInf"
| "neg32 NaN = NaN"

text \<open>\<^verbatim>\<open>a + b\<close> on \<^verbatim>\<open>float32\<close> tensors.\<close>

fun add32 :: "pyfloat \<Rightarrow> pyfloat \<Rightarrow> pyfloat" where
  "add32 (Fin a) (Fin b) = round32 (a + b)"
| "add32 NaN b = NaN"
| "add32 a NaN = NaN"
| "add32 PosInf NegInf = NaN"
| "add32 NegInf PosInf = NaN"
| "add32 PosInf b = PosInf"
| "add32 a PosInf = PosInf"
| "add32 NegInf b = NegInf"
| "add32 a NegInf = NegInf"

text \<open>
  \<^verbatim>\<open>a / b\<close> on \<^verbatim>\<open>float32\<close> tensors: true division, which never raises; a zero divisor
  gives an infinity or not-a-number.
\<close>

fun div32 :: "pyfloat \<Rightarrow> pyfloat \<Rightarrow> pyfloat" where
  "div32 (Fin a) (Fin b) =
     (if b \<noteq> 0 then round32 (a / b)
      else if 0 < a then PosInf
      else if a < 0 then NegInf
      else NaN)"
| "div32 NaN b = NaN"
| "div32 a NaN = NaN"
| "div32 (Fin a) b = Fin 0"
| "div32 PosInf (Fin b) = (if 0 \<le> b then PosInf else NegInf)"
| "div32 NegInf (Fin b) = (if 0 \<le> b then NegInf else PosInf)"
| "div32 a b = NaN"

text \<open>\<^verbatim>\<open>torch.min(a, b)\<close>: the smaller one, not-a-number if either is.\<close>

fun min32 :: "pyfloat \<Rightarrow> pyfloat \<Rightarrow> pyfloat" where
  "min32 (Fin a) (Fin b) = Fin (min a b)"
| "min32 NaN b = NaN"
| "min32 a NaN = NaN"
| "min32 NegInf b = NegInf"
| "min32 a NegInf = NegInf"
| "min32 PosInf b = b"
| "min32 a PosInf = a"

section \<open>Objects\<close>

type_synonym addr = nat

text \<open>
  \<^verbatim>\<open>EffectiveThroughput\<close>: the two \<^verbatim>\<open>float32\<close> states added by \<^verbatim>\<open>_add_state\<close> in
  \<^verbatim>\<open>__init__\<close>. \<open>start_time_inference\<close> says that the tensor bound to \<^verbatim>\<open>start_time\<close> was
  made under \<^verbatim>\<open>torch.inference_mode()\<close>: such a tensor cannot be written in place outside
  that mode. Objects are built, and the methods are called, outside inference mode; a
  method decorated with \<^verbatim>\<open>@torch.inference_mode()\<close> runs its body inside it.
\<close>

record EffectiveThroughput =
  num_total :: pyfloat
  start_time :: pyfloat
  start_time_inference :: bool

text \<open>
  \<^verbatim>\<open>Bleu\<close>: \<^verbatim>\<open>bleu_counts\<close> is an \<^verbatim>\<open>int64\<close> vector whose size the scorer decides,
  \<^verbatim>\<open>num_refs\<close> an \<^verbatim>\<open>int64\<close> tensor of shape (1,), held as its one element.
  \<open>metric_num_refs\<close> is the attribute \<^verbatim>\<open>self._metric.num_refs\<close> of the scorer object,
  which \<^verbatim>\<open>compute\<close> assigns.
\<close>

record Bleu =
  bleu_counts :: "64 word list"
  num_refs :: "64 word"
  metric_num_refs :: int

text \<open>
  \<^verbatim>\<open>WER\<close>: one \<^verbatim>\<open>int32\<close> vector, indexed by the position of a key in \<^verbatim>\<open>KEYS\<close>.
  The fourth class of the module, \<^verbatim>\<open>Perplexity\<close>, is a stub with no state and no method
  of its own.
\<close>

record WER =
  counters :: "32 word list"

datatype metric = BleuObj Bleu | WERObj WER | ETObj EffectiveThroughput

text \<open>
  The world a method runs in: the objects, and how many times \<^verbatim>\<open>time.perf_counter()\<close>
  has been read so far.
\<close>

record world =
  heap :: "addr \<Rightarrow> metric"
  ticks :: nat

text \<open>
  What the module takes from outside: the clock (\<open>perf_counter sv n\<close> is the reading the
  \<open>n\<close>-th call returns), the Distributed Sync Layer (\<^verbatim>\<open>get_world_size\<close>,
  \<^verbatim>\<open>sync_and_compute\<close>) and the scorer's \<^verbatim>\<open>_compute_score_from_stats\<close>.
\<close>

record services =
  perf_counter :: "nat \<Rightarrow> real"
  get_world_size :: int
  sync_and_compute :: "world \<Rightarrow> addr \<Rightarrow> (error + pyfloat option) \<times> world"
  compute_score_from_stats :: "int list \<Rightarrow> pyfloat"

section \<open>EffectiveThroughput\<close>

text \<open>
  \<^verbatim>\<open>update\<close>: the sign check comes first and raises before anything is written.
  An object without the attribute \<^verbatim>\<open>num_total\<close> raises \<^verbatim>\<open>AttributeError\<close>. The
  \<^verbatim>\<open>+=\<close> turns the Python int into a scalar of the tensor library, which raises
  \<^verbatim>\<open>OverflowError\<close> for an int of \<open>2 ^ 64\<close> or more, converts it to \<^verbatim>\<open>float32\<close> and adds
  in \<^verbatim>\<open>float32\<close>, in place.
\<close>

definition ET_update :: "addr \<Rightarrow> int \<Rightarrow> world \<Rightarrow> (error + addr) \<times> world" where
  "ET_update self num_processed w =
     (if num_processed < 0 then (Inl ValueError, w)
      else (case heap w self of
              ETObj e \<Rightarrow>
                if 2 ^ 64 \<le> num_processed then (Inl OverflowError, w)
                else (Inr self,
                      w\<lparr>heap := (heap w)(self :=
                           ETObj (e\<lparr>num_total :=
                             add32 (num_total e) (round32 (real_of_int num_processed))\<rparr>))\<rparr>)
            | _ \<Rightarrow> (Inl AttributeError, w)))"

text \<open>
  \<^verbatim>\<open>compute\<close>: one clock reading, converted to \<^verbatim>\<open>float32\<close> for the sum with
  \<^verbatim>\<open>-self.start_time\<close>; the sum and the quotient are \<^verbatim>\<open>float32\<close> operations. The object
  is only read.
\<close>

definition ET_compute :: "services \<Rightarrow> addr \<Rightarrow> world \<Rightarrow> (error + pyfloat) \<times> world" where
  "ET_compute sv self w =
     (case heap w self of
        ETObj e \<Rightarrow>
          (let elapsed = add32 (neg32 (start_time e)) (round32 (perf_counter sv (ticks w)));
               throughput = div32 (num_total e) elapsed
           in (Inr throughput, w\<lparr>ticks := Suc (ticks w)\<rparr>))
      | _ \<Rightarrow> (Inl AttributeError, w))"

text \<open>
  \<^verbatim>\<open>merge_state\<close>: the loop over \<^verbatim>\<open>metrics\<close>. Each round reads \<^verbatim>\<open>self\<close> and the peer
  from the store as it is then, so a peer that is \<^verbatim>\<open>self\<close> is read after the writes of
  the rounds before it. The count is added in place, in \<^verbatim>\<open>float32\<close>; \<^verbatim>\<open>start_time\<close> is
  bound to the new tensor \<^verbatim>\<open>torch.min\<close> returns, which is made inside the method's
  inference mode.
\<close>

fun ET_merge_state :: "addr \<Rightarrow> addr list \<Rightarrow> world \<Rightarrow> (error + addr) \<times> world" where
  "ET_merge_state self [] w = (Inr self, w)"
| "ET_merge_state self (m # ms) w =
     (case (heap w self, heap w m) of
        (ETObj s, ETObj p) \<Rightarrow>
          ET_merge_state self ms
            (w\<lparr>heap := (heap w)(self :=
                 ETObj \<lparr>num_total = add32 (num_total s) (num_total p),
                        start_time = min32 (start_time s) (start_time p),
                        start_time_inference = True\<rparr>)\<rparr>)
      | _ \<Rightarrow> (Inl AttributeError, w))"

text \<open>
  \<^verbatim>\<open>reset\<close> is not decorated: it reads the clock and then fills \<^verbatim>\<open>start_time\<close> in
  place with the reading, as a \<^verbatim>\<open>float32\<close>. On a \<^verbatim>\<open>start_time\<close> bound by
  \<^verbatim>\<open>merge_state\<close> the in-place write raises \<^verbatim>\<open>RuntimeError\<close>. Nothing else is written.
\<close>

definition ET_reset :: "services \<Rightarrow> addr \<Rightarrow> world \<Rightarrow> (error + addr) \<times> world" where
  "ET_reset sv self w =
     (case heap w self of
        ETObj e \<Rightarrow>
          if start_time_inference e then (Inl RuntimeError, w\<lparr>ticks := Suc (ticks w)\<rparr>)
          else (Inr self,
                w\<lparr>heap := (heap w)(self :=
                     ETObj (e\<lparr>start_time := round32 (perf_counter sv (ticks w))\<rparr>)),
                  ticks := Suc (ticks w)\<rparr>)
      | _ \<Rightarrow> (Inl AttributeError, w))"

section \<open>CounterBasedMetric\<close>

text \<open>
  The names under which \<^verbatim>\<open>_add_state\<close> registers the state tensors, in the order of the
  calls in each \<^verbatim>\<open>__init__\<close> (the order in which \<^verbatim>\<open>_state_name_to_default\<close> is iterated).
\<close>

datatype state_name = SN_bleu_counts | SN_num_refs | SN_counters | SN_num_total | SN_start_time

fun state_name_to_default :: "metric \<Rightarrow> state_name list" where
  "state_name_to_default (BleuObj b) = [SN_bleu_counts, SN_num_refs]"
| "state_name_to_default (WERObj c) = [SN_counters]"
| "state_name_to_default (ETObj e) = [SN_num_total, SN_start_time]"

text \<open>
  \<^verbatim>\<open>x += y\<close> on one-dimensional tensors: elementwise when the shapes agree, \<open>y\<close> is
  broadcast when it has one element, and any other pair of shapes raises.
\<close>

definition tensor_iadd :: "'a::plus list \<Rightarrow> 'a list \<Rightarrow> error + 'a list" where
  "tensor_iadd x y =
     (if length y = length x then Inr (map2 (+) x y)
      else if length y = 1 then Inr (map (\<lambda>a. a + hd y) x)
      else Inl RuntimeError)"

text \<open>
  \<^verbatim>\<open>x = getattr(self, k); x += getattr(metric, k)\<close> for one peer: the first object with
  its state \<open>k\<close> grown by the peer's. A peer of a class that has no attribute \<open>k\<close> raises
  \<^verbatim>\<open>AttributeError\<close>.
\<close>

fun iadd_state :: "state_name \<Rightarrow> metric \<Rightarrow> metric \<Rightarrow> error + metric" where
  "iadd_state SN_bleu_counts (BleuObj x) (BleuObj y) =
     (case tensor_iadd (bleu_counts x) (bleu_counts y) of
        Inl e \<Rightarrow> Inl e
      | Inr c \<Rightarrow> Inr (BleuObj (x\<lparr>bleu_counts := c\<rparr>)))"
| "iadd_state SN_num_refs (BleuObj x) (BleuObj y) =
     Inr (BleuObj (x\<lparr>num_refs := num_refs x + num_refs y\<rparr>))"
| "iadd_state SN_counters (WERObj x) (WERObj y) =
     (case tensor_iadd (counters x) (counters y) of
        Inl e \<Rightarrow> Inl e
      | Inr c \<Rightarrow> Inr (WERObj (x\<lparr>counters := c\<rparr>)))"
| "iadd_state SN_num_total (ETObj x) (ETObj y) =
     Inr (ETObj (x\<lparr>num_total := add32 (num_total x) (num_total y)\<rparr>))"
| "iadd_state SN_start_time (ETObj x) (ETObj y) =
     Inr (ETObj (x\<lparr>start_time := add32 (start_time x) (start_time y)\<rparr>))"
| "iadd_state _ _ _ = Inl AttributeError"

text \<open>The inner loop \<^verbatim>\<open>for metric in metrics\<close> for one state name.\<close>

fun merge_one_state :: "state_name \<Rightarrow> addr \<Rightarrow> addr list \<Rightarrow> world \<Rightarrow> error option \<times> world" where
  "merge_one_state k self [] w = (None, w)"
| "merge_one_state k self (m # ms) w =
     (case iadd_state k (heap w self) (heap w m) of
        Inl e \<Rightarrow> (Some e, w)
      | Inr x \<Rightarrow> merge_one_state k self ms (w\<lparr>heap := (heap w)(self := x)\<rparr>))"

text \<open>The outer loop \<^verbatim>\<open>for k in self._state_name_to_default\<close>.\<close>

fun merge_states :: "state_name list \<Rightarrow> addr \<Rightarrow> addr list \<Rightarrow> world \<Rightarrow> error option \<times> world" where
  "merge_states [] self metrics w = (None, w)"
| "merge_states (k # ks) self metrics w =
     (case merge_one_state k self metrics w of
        (Some e, w') \<Rightarrow> (Some e, w')
      | (None, w') \<Rightarrow> merge_states ks self metrics w')"

definition CounterBasedMetric_merge_state ::
    "addr \<Rightarrow> addr list \<Rightarrow> world \<Rightarrow> (error + addr) \<times> world" where
  "CounterBasedMetric_merge_state self metrics w =
     (case merge_states (state_name_to_default (heap w self)) self metrics w of
        (Some e, w') \<Rightarrow> (Inl e, w')
      | (None, w') \<Rightarrow> (Inr self, w'))"

text \<open>
  \<^verbatim>\<open>m.merge_state(peers)\<close> as Python dispatches it: EffectiveThroughput overrides the
  method, Bleu and WER inherit it.
\<close>

definition merge_state :: "addr \<Rightarrow> addr list \<Rightarrow> world \<Rightarrow> (error + addr) \<times> world" where
  "merge_state self metrics w =
     (case heap w self of
        ETObj e \<Rightarrow> ET_merge_state self metrics w
      | _ \<Rightarrow> CounterBasedMetric_merge_state self metrics w)"

section \<open>Bleu and WER\<close>

text \<open>
  \<^verbatim>\<open>Bleu.compute\<close>: the score of the accumulated statistics (\<^verbatim>\<open>tolist()\<close> reads the
  \<^verbatim>\<open>int64\<close> counts as signed integers), returned as a \<^verbatim>\<open>float32\<close> tensor, and the
  assignment to the scorer's \<^verbatim>\<open>num_refs\<close>. The log line is not part of the model.
\<close>

definition Bleu_compute :: "services \<Rightarrow> addr \<Rightarrow> world \<Rightarrow> (error + pyfloat) \<times> world" where
  "Bleu_compute sv self w =
     (case heap w self of
        BleuObj b \<Rightarrow>
          (let bleu = compute_score_from_stats sv (map sint (bleu_counts b));
               b' = b\<lparr>metric_num_refs := sint (num_refs b)\<rparr>
           in (Inr (to_float32 bleu), w\<lparr>heap := (heap w)(self := BleuObj b')\<rparr>))
      | _ \<Rightarrow> (Inl AttributeError, w))"

definition KEYS :: "string list" where
  "KEYS = [''hits'', ''substitutions'', ''deletions'', ''insertions'']"

text \<open>
  The comprehension \<^verbatim>\<open>{k: counters[i] for i, k in enumerate(self.KEYS)}\<close>; an index
  beyond the tensor raises.
\<close>

fun measures_of :: "32 word list \<Rightarrow> (nat \<times> string) list \<Rightarrow> error + (string \<times> 32 word) list" where
  "measures_of cs [] = Inr []"
| "measures_of cs ((i, k) # iks) =
     (if i < length cs
      then (case measures_of cs iks of
              Inl e \<Rightarrow> Inl e
            | Inr kvs \<Rightarrow> Inr ((k, cs ! i) # kvs))
      else Inl IndexError)"

definition lookup :: "(string \<times> 'a) list \<Rightarrow> string \<Rightarrow> error + 'a" where
  "lookup kvs k = (case map_of kvs k of None \<Rightarrow> Inl KeyError | Some v \<Rightarrow> Inr v)"

text \<open>
  \<^verbatim>\<open>WER.compute\<close>: both sums are sums of \<^verbatim>\<open>int32\<close> tensors; the true division
  converts the two sums to \<^verbatim>\<open>float32\<close> and divides in \<^verbatim>\<open>float32\<close>. Nothing is
  written.
\<close>

definition WER_compute :: "addr \<Rightarrow> world \<Rightarrow> (error + pyfloat) \<times> world" where
  "WER_compute self w =
     (case heap w self of
        WERObj c \<Rightarrow>
          (case measures_of (counters c) (enumerate 0 KEYS) of
             Inl e \<Rightarrow> (Inl e, w)
           | Inr meas \<Rightarrow>
               (case (lookup meas ''substitutions'', lookup meas ''deletions'',
                      lookup meas ''insertions'', lookup meas ''hits'') of
                  (Inr s, Inr d, Inr i, Inr h) \<Rightarrow>
                    (let incorrect = s + d + i;
                         total = s + d + h
                     in (Inr (div32 (round32 (real_of_int (sint incorrect)))
                                    (round32 (real_of_int (sint total)))), w))
                | _ \<Rightarrow> (Inl KeyError, w)))
      | _ \<Rightarrow> (Inl AttributeError, w))"

section \<open>Method dispatch\<close>

text \<open>\<^verbatim>\<open>v.compute()\<close> for an object of one of the three classes.\<close>

definition metric_compute :: "services \<Rightarrow> addr \<Rightarrow> world \<Rightarrow> (error + pyfloat) \<times> world" where
  "metric_compute sv self w =
     (case heap w self of
        BleuObj b \<Rightarrow> Bleu_compute sv self w
      | WERObj c \<Rightarrow> WER_compute self w
      | ETObj e \<Rightarrow> ET_compute sv self w)"

text \<open>
  Modelled from the spec: \<^verbatim>\<open>reset\<close> of Bleu and WER is inherited from the base class
  \<^verbatim>\<open>torcheval.metrics.Metric\<close>, which is not under src/; by the spec it "zeroes counters
  back to initial state and returns self". EffectiveThroughput overrides it.
\<close>

definition metric_reset :: "services \<Rightarrow> addr \<Rightarrow> world \<Rightarrow> (error + addr) \<times> world" where
  "metric_reset sv self w =
     (case heap w self of
        ETObj e \<Rightarrow> ET_reset sv self w
      | BleuObj b \<Rightarrow>
          (Inr self,
           w\<lparr>heap := (heap w)(self :=
                BleuObj (b\<lparr>bleu_counts := map (\<lambda>c. 0) (bleu_counts b), num_refs := 0\<rparr>))\<rparr>)
      | WERObj c \<Rightarrow>
          (Inr self,
           w\<lparr>heap := (heap w)(self :=
                WERObj (c\<lparr>counters := map (\<lambda>c. 0) (counters c)\<rparr>))\<rparr>))"

text \<open>The states a metric accumulates, without what else the object carries.\<close>

datatype accumulator =
    BleuAcc "64 word list" "64 word"
  | WERAcc "32 word list"
  | ETAcc pyfloat pyfloat

fun accumulator_of :: "metric \<Rightarrow> accumulator" where
  "accumulator_of (BleuObj b) = BleuAcc (bleu_counts b) (num_refs b)"
| "accumulator_of (WERObj c) = WERAcc (counters c)"
| "accumulator_of (ETObj e) = ETAcc (num_total e) (start_time e)"

text \<open>The zero state: every counter is 0.\<close>

fun is_zero_state :: "metric \<Rightarrow> bool" where
  "is_zero_state (BleuObj b) = (list_all (\<lambda>c. c = 0) (bleu_counts b) \<and> num_refs b = 0)"
| "is_zero_state (WERObj c) = list_all (\<lambda>c. c = 0) (counters c)"
| "is_zero_state (ETObj e) = (num_total e = Fin 0)"

section \<open>The registry Metrics\<close>

text \<open>
  \<^verbatim>\<open>Metrics\<close> is a \<^verbatim>\<open>dict\<close> from names to anything: an entry is a metric object (what
  \<^verbatim>\<open>isinstance(v, torcheval.metrics.Metric)\<close> accepts), held by reference, or a plain
  value. The list is the dict's items in iteration order; its keys are distinct.
\<close>

datatype 'v entry = Plain 'v | Metric addr

text \<open>A value of the result dict: a plain value passed through, a float, or \<^verbatim>\<open>None\<close>.\<close>

datatype 'v pyval = Passed 'v | Float pyfloat | PyNone

text \<open>
  The loop of \<^verbatim>\<open>Metrics.compute\<close>, with \<open>sync\<close> already decided. Besides the results it
  returns the objects it handed to \<^verbatim>\<open>sync_and_compute\<close>, in order.
\<close>

fun Metrics_compute_items ::
    "services \<Rightarrow> string \<Rightarrow> bool \<Rightarrow> (string \<times> 'v entry) list \<Rightarrow>
     (string \<rightharpoonup> 'v pyval) \<Rightarrow> addr list \<Rightarrow> world \<Rightarrow>
     (error + (string \<rightharpoonup> 'v pyval)) \<times> addr list \<times> world" where
  "Metrics_compute_items sv prefix sync [] results synced w = (Inr results, synced, w)"
| "Metrics_compute_items sv prefix sync ((k, v) # items) results synced w =
     (case v of
        Plain x \<Rightarrow>
          Metrics_compute_items sv prefix sync items
            (results(prefix @ k \<mapsto> Passed x)) synced w
      | Metric a \<Rightarrow>
          if sync
          then (case sync_and_compute sv w a of
                  (Inl e, w') \<Rightarrow> (Inl e, synced @ [a], w')
                | (Inr val, w') \<Rightarrow>
                    Metrics_compute_items sv prefix sync items
                      (results(prefix @ k \<mapsto> (case val of Some f \<Rightarrow> Float f | None \<Rightarrow> PyNone)))
                      (synced @ [a]) w')
          else (case metric_compute sv a w of
                  (Inl e, w') \<Rightarrow> (Inl e, synced, w')
                | (Inr f, w') \<Rightarrow>
                    Metrics_compute_items sv prefix sync items
                      (results(prefix @ k \<mapsto> Float f)) synced w'))"

definition Metrics_compute ::
    "services \<Rightarrow> string \<Rightarrow> bool \<Rightarrow> (string \<times> 'v entry) list \<Rightarrow> world \<Rightarrow>
     (error + (string \<rightharpoonup> 'v pyval)) \<times> addr list \<times> world" where
  "Metrics_compute sv prefix sync items w =
     Metrics_compute_items sv prefix (sync \<and> get_world_size sv > 1) items Map.empty [] w"

definition endswith :: "string \<Rightarrow> string \<Rightarrow> bool" where
  "endswith s suf = (length suf \<le> length s \<and> drop (length s - length suf) s = suf)"

fun Metrics_reset ::
    "services \<Rightarrow> (string \<times> 'v entry) list \<Rightarrow> world \<Rightarrow> (error + unit) \<times> world" where
  "Metrics_reset sv [] w = (Inr (), w)"
| "Metrics_reset sv ((k, v) # items) w =
     (if endswith k ''_min'' then Metrics_reset sv items w
      else (case v of
              Metric a \<Rightarrow>
                (case metric_reset sv a w of
                   (Inl e, w') \<Rightarrow> (Inl e, w')
                 | (Inr r, w') \<Rightarrow> Metrics_reset sv items w')
            | Plain x \<Rightarrow> Metrics_reset sv items w))"

text \<open>
  What \<^verbatim>\<open>reset\<close> makes of an object \<open>m\<close>, when the clock readings it may take are
  those from number \<open>lo\<close> up to, not including, number \<open>hi\<close>: a Bleu or a WER has every
  counter at 0; an EffectiveThroughput has its count as before and one of those readings,
  as a \<^verbatim>\<open>float32\<close>, as its start time.
\<close>

definition reset_outcome :: "services \<Rightarrow> nat \<Rightarrow> nat \<Rightarrow> metric \<Rightarrow> metric \<Rightarrow> bool" where
  "reset_outcome sv lo hi m m' =
     (case m of
        BleuObj b \<Rightarrow>
          m' = BleuObj (b\<lparr>bleu_counts := map (\<lambda>c. 0) (bleu_counts b), num_refs := 0\<rparr>)
      | WERObj c \<Rightarrow> m' = WERObj (c\<lparr>counters := map (\<lambda>c. 0) (counters c)\<rparr>)
      | ETObj e \<Rightarrow>
          (\<exists>n \<in> {lo..<hi}. m' = ETObj (e\<lparr>start_time := round32 (perf_counter sv n)\<rparr>)))"

text \<open>
  An object on which \<^verbatim>\<open>reset\<close> can write: every Bleu and WER, and an
  EffectiveThroughput whose \<^verbatim>\<open>start_time\<close> no \<^verbatim>\<open>merge_state\<close> has bound.
\<close>

definition reset_allowed :: "metric \<Rightarrow> bool" where
  "reset_allowed m = (case m of ETObj e \<Rightarrow> \<not> start_time_inference e | _ \<Rightarrow> True)"

text \<open>
  The shape \<^verbatim>\<open>WER.__init__\<close> gives the counters: one per key. No update, merge or reset
  changes the shape of a state tensor.
\<close>

definition well_shaped :: "metric \<Rightarrow> bool" where
  "well_shaped m = (case m of WERObj c \<Rightarrow> length (counters c) = length KEYS | _ \<Rightarrow> True)"

section \<open>The Filter Stage\<close>

text \<open>
  Modelled from the spec: the Filter Stage (\<^verbatim>\<open>read_sequence(xs).filter(fn).and_return()\<close>
  of \<^verbatim>\<open>fairseq2.data\<close>) is native code that is not under src/; only its test is. By the
  spec the stage "holds no accumulated state beyond the upstream source's own cursor".
  \<open>source\<close> is the sequence given to \<^verbatim>\<open>read_sequence\<close>, \<open>rest\<close> what the cursor has not
  passed yet.
\<close>

record 'a filter_stage =
  source :: "'a list"
  rest :: "'a list"

text \<open>
  Modelled from the spec: construction (missing from src/) binds the predicate and the
  upstream sequence; the cursor stands at the start.
\<close>

definition read_sequence_filter :: "'a list \<Rightarrow> 'a filter_stage" where
  "read_sequence_filter xs = \<lparr>source = xs, rest = xs\<rparr>"

text \<open>
  Modelled from the spec: producing the next element (missing from src/). "For each
  upstream element, evaluate the predicate; if true, yield the element; if false, skip
  and pull the next upstream element"; a predicate that raises has its failure passed on
  "immediately", with the cursor just behind the failing element. A predicate returns its
  verdict or the exception it raises. The result is the element yielded, \<open>None\<close> at the end
  of the upstream, or the failure, with what is left of the upstream.
\<close>

fun pull :: "('a \<Rightarrow> 'e + bool) \<Rightarrow> 'a list \<Rightarrow> ('e + 'a option) \<times> 'a list" where
  "pull fn [] = (Inr None, [])"
| "pull fn (x # xs) =
     (case fn x of
        Inl e \<Rightarrow> (Inl e, xs)
      | Inr True \<Rightarrow> (Inr (Some x), xs)
      | Inr False \<Rightarrow> pull fn xs)"

text \<open>
  Modelled from the spec: the stage's \<^verbatim>\<open>next\<close> (missing from src/), which moves the
  cursor of the stage as \<open>pull\<close> says.
\<close>

definition filter_next ::
    "('a \<Rightarrow> 'e + bool) \<Rightarrow> 'a filter_stage \<Rightarrow> ('e + 'a option) \<times> 'a filter_stage" where
  "filter_next fn s = (case pull fn (rest s) of (r, xs) \<Rightarrow> (r, s\<lparr>rest := xs\<rparr>))"

text \<open>
  Modelled from the spec: \<^verbatim>\<open>reset()\<close> (missing from src/) "rewinds the upstream source
  to its beginning".
\<close>

definition filter_reset :: "'a filter_stage \<Rightarrow> 'a filter_stage" where
  "filter_reset s = s\<lparr>rest := source s\<rparr>"

text \<open>
  Modelled from the spec: the consumer's loop over the stage (\<^verbatim>\<open>list(dp)\<close> and
  \<^verbatim>\<open>for d in dp\<close> in the test; the iterator protocol is missing from src/). It pulls
  until the stage is exhausted or fails, and returns how the pass ended, the elements it
  saw, in order, and the stage as the pass leaves it.
\<close>

function consume ::
    "('a \<Rightarrow> 'e + bool) \<Rightarrow> 'a filter_stage \<Rightarrow> 'a list \<Rightarrow> ('e + unit) \<times> 'a list \<times> 'a filter_stage" where
  "consume fn s seen =
     (case filter_next fn s of
        (Inl e, s') \<Rightarrow> (Inl e, seen, s')
      | (Inr None, s') \<Rightarrow> (Inr (), seen, s')
      | (Inr (Some x), s') \<Rightarrow> consume fn s' (seen @ [x]))"
  by pat_completeness auto
termination
proof (relation "measure (\<lambda>(fn, s, seen). length (rest s))")
  show "wf (measure (\<lambda>(fn :: 'a \<Rightarrow> 'e + bool, s :: 'a filter_stage, seen :: 'a list). length (rest s)))"
    by simp
next
  fix fn :: "'a \<Rightarrow> 'e + bool" and s s' :: "'a filter_stage" and seen :: "'a list"
    and r :: "'e + 'a option" and o_x :: "'a option" and x :: 'a
  assume nxt: "(r, s') = filter_next fn s" and r: "r = Inr o_x" and o_x: "o_x = Some x"
  have shorter: "fst (pull fn xs) = Inr (Some y) \<Longrightarrow> length (snd (pull fn xs)) < length xs"
    for xs y
    by (induction xs) (auto split: sum.splits bool.splits)
  have "fst (pull fn (rest s)) = Inr (Some x)" and "rest s' = snd (pull fn (rest s))"
    using nxt r o_x by (auto simp: filter_next_def split: prod.splits)
  then have "length (rest s') < length (rest s)"
    using shorter [of "rest s" x] by simp
  then show "((fn, s', seen @ [x]), (fn, s, seen)) \<in> measure (\<lambda>(fn, s, seen). length (rest s))"
    by simp
qed

declare consume.simps [simp del]

section \<open>Example worlds\<close>

text \<open>
  A clock that reads 10, 11, 12, ..., a single worker, a sync layer that fails when it is
  called, and a scorer that adds the statistics up.
\<close>

definition sv0 :: services where
  "sv0 = \<lparr>perf_counter = (\<lambda>n. real n + 10),
          get_world_size = 1,
          sync_and_compute = (\<lambda>w a. (Inl RuntimeError, w)),
          compute_score_from_stats = (\<lambda>stats. Fin (real_of_int (sum_list stats)))\<rparr>"

text \<open>
  Three EffectiveThroughput objects at 0, 1 and 2, two Bleu objects at 3 and 4, a WER
  object that has seen three hits at 5, an EffectiveThroughput with a count of \<open>2 ^ 24\<close>
  at 7, a WER with \<open>2 ^ 30\<close> hits, substitutions and deletions at 8, and WER objects with
  6 hits, 1 substitution, 1 deletion and 2 insertions everywhere else.
\<close>

definition world0 :: world where
  "world0 =
     \<lparr>heap = (\<lambda>a.
        if a = 0 then
          ETObj \<lparr>num_total = Fin 4, start_time = Fin 7, start_time_inference = False\<rparr>
        else if a = 1 then
          ETObj \<lparr>num_total = Fin 2, start_time = Fin 5, start_time_inference = False\<rparr>
        else if a = 2 then
          ETObj \<lparr>num_total = Fin 1, start_time = Fin 9, start_time_inference = False\<rparr>
        else if a = 3 then
          BleuObj \<lparr>bleu_counts = [1, 2], num_refs = 1, metric_num_refs = 0\<rparr>
        else if a = 4 then
          BleuObj \<lparr>bleu_counts = [3, 4], num_refs = 2, metric_num_refs = 0\<rparr>
        else if a = 5 then WERObj \<lparr>counters = [3, 0, 0, 0]\<rparr>
        else if a = 7 then
          ETObj \<lparr>num_total = Fin 16777216, start_time = Fin 7, start_time_inference = False\<rparr>
        else if a = 8 then
          WERObj \<lparr>counters = [1073741824, 1073741824, 1073741824, 0]\<rparr>
        else WERObj \<lparr>counters = [6, 1, 1, 2]\<rparr>),
      ticks = 0\<rparr>"

text \<open>The same services with a clock that reads \<open>2 ^ 24 + 1\<close>, \<open>2 ^ 24 + 2\<close>, ...\<close>

definition sv_late :: services where
  "sv_late = sv0\<lparr>perf_counter := (\<lambda>n. real n + 16777217)\<rparr>"

text \<open>
  A registry whose second entry is an EffectiveThroughput that has been merged, followed
  by a WER.
\<close>

definition world_merged :: world where
  "world_merged = snd (ET_merge_state 0 [1] world0)"

definition registry_merged :: "(string \<times> int entry) list" where
  "registry_merged = [(''epoch'', Plain 3), (''throughput'', Metric 0), (''wer'', Metric 5)]"

definition registry0 :: "(string \<times> int entry) list" where
  "registry0 =
     [(''loss_min'', Metric 1), (''throughput'', Metric 0), (''epoch'', Plain 3),
      (''bleu'', Metric 3), (''wer'', Metric 5)]"

text \<open>The predicates of the two tests of the Filter Stage.\<close>

definition is_odd :: "int \<Rightarrow> error + bool" where
  "is_odd d = Inr (d mod 2 = 1)"

definition raises_on_3 :: "int \<Rightarrow> error + bool" where
  "raises_on_3 d = (if d = 3 then Inl ValueError else Inr True)"

section \<open>Helper lemmas: floating point\<close>

lemma round_half_even_of_int: "round_half_even (of_int m) = m"
  by (simp add: round_half_even_def)

lemma powi2_powr: "(2::real) powi k = 2 powr of_int k"
  by (simp add: powr_real_of_int')

lemma floor_log2_eq:
  assumes "2 powi j \<le> x" and "x < 2 powi (j + 1)"
  shows "\<lfloor>log 2 x\<rfloor> = j"
proof -
  have "0 < (2::real) powi j" by simp
  then have "0 < x" using assms(1) by linarith
  then show ?thesis
    using assms by (simp add: floor_log_eq_powr_iff powi2_powr)
qed

lemma floor_log2_bounds:
  assumes "0 < x"
  shows "2 powi \<lfloor>log 2 x\<rfloor> \<le> x \<and> x < 2 powi (\<lfloor>log 2 x\<rfloor> + 1)"
  using floor_log_eq_powr_iff [of x 2 "\<lfloor>log 2 x\<rfloor>"] assms
  by (simp add: powi2_powr)

lemma powi2_less_iff: "(2::real) powi a < 2 powi b \<longleftrightarrow> a < b"
  by (simp add: powi2_powr)

text \<open>A number with at most 24 significant bits, in range, is a \<^verbatim>\<open>float32\<close>.\<close>

lemma round32_representable:
  assumes m: "m \<noteq> 0" "\<bar>m\<bar> < 2 ^ 24" and p: "- 149 \<le> p"
    and fin: "\<bar>of_int m * 2 powi p\<bar> < (2::real) ^ 128"
  shows "round32 (of_int m * 2 powi p) = Fin (of_int m * 2 powi p)"
proof -
  define x :: real where "x = of_int m * 2 powi p"
  have x0: "x \<noteq> 0" using m(1) by (simp add: x_def)
  define j where "j = \<lfloor>log 2 \<bar>x\<bar>\<rfloor>"
  have "2 powi j \<le> \<bar>x\<bar>"
    using floor_log2_bounds [of "\<bar>x\<bar>"] x0 by (simp add: j_def)
  also have "\<bar>x\<bar> = \<bar>of_int m\<bar> * 2 powi p"
    by (simp add: x_def abs_mult)
  also have "\<dots> < 2 ^ 24 * 2 powi p"
  proof -
    have "real_of_int \<bar>m\<bar> < real_of_int (2 ^ 24)"
      using m(2) by (simp only: of_int_less_iff)
    then have "\<bar>real_of_int m\<bar> < 2 ^ 24" by simp
    then show ?thesis by (simp add: mult_strict_right_mono)
  qed
  also have "(2::real) ^ 24 * 2 powi p = 2 powi (24 + p)"
    by (simp add: power_int_add)
  finally have "j < 24 + p" by (simp add: powi2_less_iff)
  define e where "e = ulp_exponent x"
  have e: "e \<le> p" using \<open>j < 24 + p\<close> p by (simp add: e_def ulp_exponent_def j_def)
  define d where "d = nat (p - e)"
  have pd: "p = e + int d" using e by (simp add: d_def)
  have "x / 2 powi e = of_int m * 2 ^ d"
    by (simp add: x_def pd power_int_add power_int_of_nat)
  also have "\<dots> = of_int (m * 2 ^ d)" by simp
  finally have q: "round_half_even (x / 2 powi e) = m * 2 ^ d"
    by (simp only: round_half_even_of_int)
  have y: "of_int (round_half_even (x / 2 powi e)) * 2 powi e = x"
    unfolding q by (simp add: x_def pd power_int_add power_int_of_nat)
  show ?thesis
    using x0 fin y unfolding x_def [symmetric]
    by (simp add: round32_def Let_def e_def [symmetric])
qed

text \<open>Every integer up to \<open>2 ^ 24\<close> in magnitude is a \<^verbatim>\<open>float32\<close>.\<close>

lemma round32_of_int:
  assumes "\<bar>k\<bar> \<le> 2 ^ 24"
  shows "round32 (of_int k) = Fin (of_int k)"
proof (cases "k = 0")
  case True
  then show ?thesis by (simp add: round32_def)
next
  case False
  show ?thesis
  proof (cases "\<bar>k\<bar> < 2 ^ 24")
    case True
    have "real_of_int \<bar>k\<bar> < real_of_int (2 ^ 24)"
      using True by (simp only: of_int_less_iff)
    then have "\<bar>real_of_int k\<bar> < 2 ^ 24" by simp
    then have "\<bar>real_of_int k * 2 powi 0\<bar> < 2 ^ 128" by simp
    from round32_representable [OF False True _ this] show ?thesis by simp
  next
    case False
    then have "k = 2 ^ 24 \<or> k = - (2 ^ 24)" using assms by linarith
    then have k: "real_of_int k = of_int (k div 2 ^ 24) * 2 powi 24"
      and s: "k div 2 ^ 24 \<noteq> 0" "\<bar>k div 2 ^ 24\<bar> < 2 ^ 24"
      by auto
    have "\<bar>real_of_int (k div 2 ^ 24) * 2 powi 24\<bar> < 2 ^ 128"
      using \<open>k = 2 ^ 24 \<or> k = - (2 ^ 24)\<close> by auto
    from round32_representable [OF s _ this] show ?thesis using k by simp
  qed
qed

lemma round32_0: "round32 0 = Fin 0"
  by (simp add: round32_def)

lemma round32_1: "round32 1 = Fin 1"
  using round32_of_int [of 1] by simp

lemma round32_numeral:
  "(numeral n :: int) \<le> 2 ^ 24 \<Longrightarrow> round32 (numeral n) = Fin (numeral n)"
  using round32_of_int [of "numeral n"] by simp

lemma round32_half: "round32 (1 / 2) = Fin (1 / 2)"
  using round32_representable [of 1 "- 1"] by simp

text \<open>\<open>2 ^ 24 + 1\<close> is not a \<^verbatim>\<open>float32\<close>: it lies half-way and rounds to \<open>2 ^ 24\<close>.\<close>

lemma round32_tie: "round32 16777217 = Fin 16777216"
proof -
  have "\<lfloor>log 2 \<bar>16777217 :: real\<bar>\<rfloor> = 24"
    by (rule floor_log2_eq) simp_all
  then show ?thesis
    by (simp add: round32_def ulp_exponent_def round_half_even_def Let_def)
qed

lemma add32_int_exact:
  assumes "0 \<le> a" and "0 \<le> b" and "a + b \<le> 2 ^ 24"
  shows "add32 (Fin (of_int a)) (Fin (of_int b)) = Fin (of_int (a + b))"
  using round32_of_int [of "a + b"] assms by simp

lemma foldl_add32_exact:
  "0 \<le> c \<Longrightarrow> \<forall>k \<in> set cs. 0 \<le> k \<Longrightarrow> c + sum_list cs \<le> 2 ^ 24 \<Longrightarrow>
   foldl add32 (Fin (of_int c)) (map (\<lambda>k. Fin (of_int k)) cs) = Fin (of_int (c + sum_list cs))"
proof (induction cs arbitrary: c)
  case Nil
  then show ?case by simp
next
  case (Cons k ks)
  have k: "0 \<le> k" and ks: "\<forall>k \<in> set ks. 0 \<le> k" using Cons.prems(2) by simp_all
  have "0 \<le> sum_list ks" using ks by (simp add: sum_list_nonneg)
  then have small: "c + k \<le> 2 ^ 24" using Cons.prems(3) by simp
  have step: "add32 (Fin (of_int c)) (Fin (of_int k)) = Fin (of_int (c + k))"
    using Cons.prems(1) k small by (rule add32_int_exact)
  have "foldl add32 (Fin (of_int (c + k))) (map (\<lambda>k. Fin (of_int k)) ks) =
      Fin (of_int (c + k + sum_list ks))"
    using Cons.prems(1,3) k ks by (intro Cons.IH) simp_all
  then show ?case
    by (simp only: list.map foldl_Cons step sum_list.Cons add.assoc)
qed

lemma foldl_min32_Fin:
  "foldl min32 (Fin t) (map Fin ts) = Fin (Min (set (t # ts)))"
proof (induction ts arbitrary: t)
  case Nil
  show ?case by simp
next
  case (Cons a ts)
  have "Min (set (min t a # ts)) = Min (set (t # a # ts))"
    by (cases "ts = []") (simp_all add: min.assoc)
  then show ?case using Cons.IH [of "min t a"] by simp
qed

section \<open>Helper lemmas: merge_state\<close>

lemma ET_merge_state_result:
  "self \<notin> set peers \<Longrightarrow> map (heap w) peers = map ETObj es \<Longrightarrow> heap w self = ETObj e \<Longrightarrow>
   fst (ET_merge_state self peers w) = Inr self \<and>
   heap (snd (ET_merge_state self peers w)) self =
     ETObj \<lparr>num_total = foldl add32 (num_total e) (map num_total es),
            start_time = foldl min32 (start_time e) (map start_time es),
            start_time_inference = (start_time_inference e \<or> peers \<noteq> [])\<rparr>"
proof (induction peers arbitrary: w e es)
  case Nil
  then show ?case by simp
next
  case (Cons m ms)
  from Cons.prems(2) obtain e1 es1 where es: "es = e1 # es1" and m: "heap w m = ETObj e1"
    and ms: "map (heap w) ms = map ETObj es1"
    by (cases es) auto
  define x where "x = \<lparr>num_total = add32 (num_total e) (num_total e1),
                         start_time = min32 (start_time e) (start_time e1),
                         start_time_inference = True\<rparr>"
  define w1 where "w1 = w\<lparr>heap := (heap w)(self := ETObj x)\<rparr>"
  have notin: "self \<notin> set ms" using Cons.prems(1) by simp
  have ms': "map (heap w1) ms = map ETObj es1"
    using ms notin by (auto simp: w1_def)
  have self': "heap w1 self = ETObj x" by (simp add: w1_def)
  have step: "ET_merge_state self (m # ms) w = ET_merge_state self ms w1"
    using Cons.prems(3) m by (simp add: w1_def x_def)
  show ?case
    unfolding step using Cons.IH [OF notin ms' self']
    by (simp add: es x_def)
qed

lemma ET_merge_state_frame:
  "a \<noteq> self \<Longrightarrow> heap (snd (ET_merge_state self ms w)) a = heap w a"
  by (induction ms arbitrary: w) (auto split: metric.splits)

lemma merge_one_state_frame:
  "a \<noteq> self \<Longrightarrow> heap (snd (merge_one_state k self ms w)) a = heap w a"
  by (induction ms arbitrary: w) (auto split: sum.splits)

lemma merge_states_frame:
  "a \<noteq> self \<Longrightarrow> heap (snd (merge_states ks self ms w)) a = heap w a"
proof (induction ks arbitrary: w)
  case Nil
  then show ?case by simp
next
  case (Cons k ks)
  obtain r w' where r: "merge_one_state k self ms w = (r, w')"
    by (cases "merge_one_state k self ms w")
  have "heap w' a = heap w a"
    using merge_one_state_frame [OF Cons.prems, of k ms w] r by simp
  then show ?case
    using r Cons.IH [OF Cons.prems, of w'] by (cases r) simp_all
qed

lemma snd_CounterBasedMetric_merge_state:
  "snd (CounterBasedMetric_merge_state self ms w) =
   snd (merge_states (state_name_to_default (heap w self)) self ms w)"
  by (simp add: CounterBasedMetric_merge_state_def split: prod.splits option.splits)

lemma CounterBasedMetric_merge_state_frame:
  "a \<noteq> self \<Longrightarrow> heap (snd (CounterBasedMetric_merge_state self ms w)) a = heap w a"
  unfolding snd_CounterBasedMetric_merge_state by (rule merge_states_frame)

lemma merge_state_heap_frame:
  "a \<noteq> self \<Longrightarrow> heap (snd (merge_state self ms w)) a = heap w a"
  by (cases "heap w self")
     (simp_all add: merge_state_def CounterBasedMetric_merge_state_frame ET_merge_state_frame)

lemma sint_add3_exact:
  fixes a b c :: "32 word"
  assumes "- (2 ^ 31) \<le> sint a + sint b + sint c" and "sint a + sint b + sint c < 2 ^ 31"
  shows "sint (a + b + c) = sint a + sint b + sint c"
proof -
  have c: "signed_take_bit 31 (sint c) = sint c"
  proof -
    have "- (2 ^ (LENGTH(32) - 1)) \<le> sint c" by (rule sint_ge)
    moreover have "sint c < 2 ^ (LENGTH(32) - 1)" by (rule sint_lt)
    ultimately show ?thesis by (simp add: signed_take_bit_int_eq_self)
  qed
  have "sint (a + b + c) = signed_take_bit 31 (signed_take_bit 31 (sint a + sint b) + sint c)"
    by (simp add: sint_word_ariths)
  also have "\<dots> =
      signed_take_bit 31 (signed_take_bit 31 (sint a + sint b) + signed_take_bit 31 (sint c))"
    by (simp only: c)
  also have "\<dots> = signed_take_bit 31 (sint a + sint b + sint c)"
    by (rule signed_take_bit_add)
  also have "\<dots> = sint a + sint b + sint c"
    using assms by (simp add: signed_take_bit_int_eq_self)
  finally show ?thesis .
qed

section \<open>Helper lemmas: compute\<close>

lemma metric_compute_accumulators:
  "accumulator_of (heap (snd (metric_compute sv a w)) b) = accumulator_of (heap w b)"
  by (cases "heap w a")
     (auto simp: metric_compute_def Bleu_compute_def WER_compute_def ET_compute_def Let_def
        split: sum.splits prod.splits)

lemma metric_compute_not_ET:
  assumes "\<forall>e. heap w a \<noteq> ETObj e"
    and "accumulator_of (heap w' a) = accumulator_of (heap w a)"
  shows "fst (metric_compute sv a w') = fst (metric_compute sv a w)"
proof (cases "heap w a")
  case (BleuObj b)
  then obtain b' where "heap w' a = BleuObj b'" "bleu_counts b' = bleu_counts b"
    using assms(2) by (cases "heap w' a") auto
  then show ?thesis using BleuObj
    by (simp add: metric_compute_def Bleu_compute_def Let_def)
next
  case (WERObj c)
  then obtain c' where "heap w' a = WERObj c'" "counters c' = counters c"
    using assms(2) by (cases "heap w' a") auto
  then show ?thesis using WERObj
    by (simp add: metric_compute_def WER_compute_def Let_def split: sum.splits)
next
  case (ETObj e)
  then show ?thesis using assms(1) by simp
qed

lemma metric_compute_ET:
  "heap w a = ETObj e \<Longrightarrow>
   metric_compute sv a w =
     (Inr (div32 (num_total e)
             (add32 (neg32 (start_time e)) (round32 (perf_counter sv (ticks w))))),
      w\<lparr>ticks := Suc (ticks w)\<rparr>)"
  by (simp add: metric_compute_def ET_compute_def)

section \<open>Helper lemmas: reset\<close>

lemma metric_reset_fst: "reset_allowed (heap w a) \<Longrightarrow> fst (metric_reset sv a w) = Inr a"
  by (cases "heap w a") (simp_all add: metric_reset_def ET_reset_def reset_allowed_def)

lemma metric_reset_frame: "b \<noteq> a \<Longrightarrow> heap (snd (metric_reset sv a w)) b = heap w b"
  by (cases "heap w a") (simp_all add: metric_reset_def ET_reset_def)

lemma metric_reset_ticks: "ticks w \<le> ticks (snd (metric_reset sv a w))"
  by (cases "heap w a") (simp_all add: metric_reset_def ET_reset_def)

lemma metric_reset_allowed:
  "reset_allowed (heap (snd (metric_reset sv a w)) b) = reset_allowed (heap w b)"
  by (cases "heap w a"; cases "b = a")
     (simp_all add: metric_reset_def ET_reset_def reset_allowed_def)

lemma metric_reset_outcome:
  "reset_allowed (heap w a) \<Longrightarrow> ticks (snd (metric_reset sv a w)) \<le> hi \<Longrightarrow>
   reset_outcome sv (ticks w) hi (heap w a) (heap (snd (metric_reset sv a w)) a)"
  by (cases "heap w a")
     (auto simp: metric_reset_def ET_reset_def reset_outcome_def reset_allowed_def)

lemma reset_outcome_mono:
  "reset_outcome sv lo hi m m' \<Longrightarrow> lo' \<le> lo \<Longrightarrow> hi \<le> hi' \<Longrightarrow> reset_outcome sv lo' hi' m m'"
  by (cases m) (auto simp: reset_outcome_def)

lemma reset_outcome_again:
  "reset_outcome sv lo mid m m1 \<Longrightarrow> reset_outcome sv lo2 hi m1 m2 \<Longrightarrow> lo \<le> lo2 \<Longrightarrow>
   reset_outcome sv lo hi m m2"
proof (cases m)
  case (ETObj e)
  assume a: "reset_outcome sv lo mid m m1" "reset_outcome sv lo2 hi m1 m2" "lo \<le> lo2"
  from a(1) ETObj obtain n where
    m1: "m1 = ETObj (e\<lparr>start_time := round32 (perf_counter sv n)\<rparr>)"
    by (auto simp: reset_outcome_def)
  from a(2) m1 obtain n2 where n2: "n2 \<in> {lo2..<hi}"
    and m2: "m2 = ETObj (e\<lparr>start_time := round32 (perf_counter sv n2)\<rparr>)"
    by (auto simp: reset_outcome_def)
  have "n2 \<in> {lo..<hi}" using n2 a(3) by simp
  then show ?thesis using m2 ETObj by (auto simp: reset_outcome_def)
qed (auto simp: reset_outcome_def)

lemma Metrics_reset_frame:
  "\<forall>k. (k, Metric a) \<in> set reg \<longrightarrow> endswith k ''_min'' \<Longrightarrow>
   heap (snd (Metrics_reset sv reg w)) a = heap w a"
proof (induction reg arbitrary: w)
  case Nil
  show ?case by simp
next
  case (Cons kv items)
  obtain k0 v0 where kv: "kv = (k0, v0)" by (cases kv)
  have rest: "\<forall>k. (k, Metric a) \<in> set items \<longrightarrow> endswith k ''_min''"
    using Cons.prems by simp
  show ?case
  proof (cases "endswith k0 ''_min'' \<or> (\<exists>x. v0 = Plain x)")
    case True
    then have "Metrics_reset sv (kv # items) w = Metrics_reset sv items w"
      by (auto simp: kv)
    then show ?thesis using Cons.IH [OF rest, of w] by simp
  next
    case False
    then obtain a0 where v0: "v0 = Metric a0" and k0: "\<not> endswith k0 ''_min''"
      by (cases v0) auto
    have ne: "a \<noteq> a0" using Cons.prems k0 by (auto simp: kv v0)
    obtain r w1 where c: "metric_reset sv a0 w = (r, w1)" by (cases "metric_reset sv a0 w")
    have w1: "heap w1 a = heap w a"
      using metric_reset_frame [OF ne, of sv w] c by simp
    show ?thesis
    proof (cases r)
      case (Inl e)
      then show ?thesis using c k0 w1 by (simp add: kv v0)
    next
      case (Inr x)
      then have "Metrics_reset sv (kv # items) w = Metrics_reset sv items w1"
        using c k0 by (simp add: kv v0)
      then show ?thesis using Cons.IH [OF rest, of w1] w1 by simp
    qed
  qed
qed

lemma Metrics_reset_props:
  "\<forall>k a. (k, Metric a) \<in> set reg \<and> \<not> endswith k ''_min'' \<longrightarrow> reset_allowed (heap w a) \<Longrightarrow>
   fst (Metrics_reset sv reg w) = Inr () \<and>
   ticks w \<le> ticks (snd (Metrics_reset sv reg w)) \<and>
   (\<forall>k a. (k, Metric a) \<in> set reg \<and> \<not> endswith k ''_min'' \<longrightarrow>
        reset_outcome sv (ticks w) (ticks (snd (Metrics_reset sv reg w)))
          (heap w a) (heap (snd (Metrics_reset sv reg w)) a))"
proof (induction reg arbitrary: w)
  case Nil
  show ?case by simp
next
  case (Cons kv items)
  obtain k0 v0 where kv: "kv = (k0, v0)" by (cases kv)
  have allowed: "\<forall>k a. (k, Metric a) \<in> set items \<and> \<not> endswith k ''_min'' \<longrightarrow>
      reset_allowed (heap w a)"
    using Cons.prems by auto
  show ?case
  proof (cases "endswith k0 ''_min'' \<or> (\<exists>x. v0 = Plain x)")
    case True
    then have step: "Metrics_reset sv (kv # items) w = Metrics_reset sv items w"
      by (auto simp: kv)
    have tgt: "(k, Metric a) \<in> set items"
      if "(k, Metric a) \<in> set (kv # items)" "\<not> endswith k ''_min''" for k a
      using that True by (auto simp: kv)
    note IH = Cons.IH [OF allowed]
    have out: "\<forall>k a. (k, Metric a) \<in> set (kv # items) \<and> \<not> endswith k ''_min'' \<longrightarrow>
        reset_outcome sv (ticks w) (ticks (snd (Metrics_reset sv items w)))
          (heap w a) (heap (snd (Metrics_reset sv items w)) a)"
      using IH tgt by blast
    show ?thesis
      unfolding step using IH out by blast
  next
    case False
    then obtain a0 where v0: "v0 = Metric a0" and k0: "\<not> endswith k0 ''_min''"
      by (cases v0) auto
    have a0: "reset_allowed (heap w a0)" using Cons.prems k0 by (auto simp: kv v0)
    define w1 where "w1 = snd (metric_reset sv a0 w)"
    define w' where "w' = snd (Metrics_reset sv items w1)"
    have step: "Metrics_reset sv (kv # items) w = Metrics_reset sv items w1"
      using metric_reset_fst [OF a0, of sv] k0
      by (cases "metric_reset sv a0 w") (auto simp: kv v0 w1_def)
    have allowed1: "\<forall>k a. (k, Metric a) \<in> set items \<and> \<not> endswith k ''_min'' \<longrightarrow>
        reset_allowed (heap w1 a)"
      using allowed by (simp add: w1_def metric_reset_allowed)
    note IH = Cons.IH [OF allowed1, folded w'_def]
    have t01: "ticks w \<le> ticks w1" unfolding w1_def by (rule metric_reset_ticks)
    have t1': "ticks w1 \<le> ticks w'" using IH by simp
    have frame1: "heap w1 b = heap w b" if "b \<noteq> a0" for b
      unfolding w1_def using that by (rule metric_reset_frame)
    have out1: "reset_outcome sv (ticks w) hi (heap w a0) (heap w1 a0)" if "ticks w1 \<le> hi" for hi
      unfolding w1_def using a0 that [unfolded w1_def] by (rule metric_reset_outcome)
    have outcome: "reset_outcome sv (ticks w) (ticks w') (heap w a) (heap w' a)"
      if mem: "(k, Metric a) \<in> set (kv # items)" and nk: "\<not> endswith k ''_min''" for k a
    proof (cases "\<exists>k'. (k', Metric a) \<in> set items \<and> \<not> endswith k' ''_min''")
      case True
      then have later: "reset_outcome sv (ticks w1) (ticks w') (heap w1 a) (heap w' a)"
        using IH by blast
      show ?thesis
      proof (cases "a = a0")
        case True
        show ?thesis
          using out1 [OF order_refl] later t01 unfolding True
          by (rule reset_outcome_again)
      next
        case False
        then show ?thesis
          using later frame1 [of a] t01
            reset_outcome_mono [of sv "ticks w1" "ticks w'" "heap w a" "heap w' a" "ticks w" "ticks w'"]
          by simp
      qed
    next
      case False
      then have a: "a = a0" using mem nk by (auto simp: kv v0)
      have "\<forall>k. (k, Metric a0) \<in> set items \<longrightarrow> endswith k ''_min''"
        using False a by blast
      then have "heap w' a0 = heap w1 a0"
        unfolding w'_def by (rule Metrics_reset_frame)
      then show ?thesis using out1 [OF t1'] a by simp
    qed
    show ?thesis
      unfolding step w'_def [symmetric]
    proof (intro conjI allI impI)
      show "fst (Metrics_reset sv items w1) = Inr ()" using IH by simp
      show "ticks w \<le> ticks w'" using t01 t1' by simp
      show "reset_outcome sv (ticks w) (ticks w') (heap w a) (heap w' a)"
        if "(k, Metric a) \<in> set (kv # items) \<and> \<not> endswith k ''_min''" for k a
        using that outcome by blast
    qed
  qed
qed

section \<open>Helper lemmas: the registry's compute\<close>

lemma metric_compute_sync_irrelevant:
  "metric_compute (sv\<lparr>sync_and_compute := f\<rparr>) a w = metric_compute sv a w"
  by (cases "heap w a") (simp_all add: metric_compute_def Bleu_compute_def ET_compute_def)

lemma Metrics_compute_items_local:
  "Metrics_compute_items (sv\<lparr>sync_and_compute := f\<rparr>) prefix False reg results synced w =
     Metrics_compute_items sv prefix False reg results synced w \<and>
   fst (snd (Metrics_compute_items sv prefix False reg results synced w)) = synced"
proof (induction reg arbitrary: results synced w)
  case Nil
  show ?case by simp
next
  case (Cons kv items)
  obtain k v where kv: "kv = (k, v)" by (cases kv)
  show ?case
  proof (cases v)
    case (Plain x)
    show ?thesis
      using Cons.IH [of "results(prefix @ k \<mapsto> Passed x)" synced w]
      by (simp only: kv Plain Metrics_compute_items.simps entry.case)
  next
    case (Metric a)
    obtain r w1 where c: "metric_compute sv a w = (r, w1)" by (cases "metric_compute sv a w")
    show ?thesis
    proof (cases r)
      case (Inl e)
      then show ?thesis
        using c by (simp add: kv Metric metric_compute_sync_irrelevant)
    next
      case (Inr v)
      show ?thesis
        using Cons.IH [of "results(prefix @ k \<mapsto> Float v)" synced w1] c Inr
        by (simp only: kv Metric Metrics_compute_items.simps entry.case
              metric_compute_sync_irrelevant if_False prod.case sum.case)
    qed
  qed
qed

lemma well_shaped_accumulator:
  "accumulator_of m' = accumulator_of m \<Longrightarrow> well_shaped m' = well_shaped m"
  by (cases m; cases m') (simp_all add: well_shaped_def)

lemma metric_compute_ok:
  assumes "well_shaped (heap w a)"
  shows "\<exists>v. fst (metric_compute sv a w) = Inr v"
proof (cases "heap w a")
  case (BleuObj b)
  then show ?thesis by (simp add: metric_compute_def Bleu_compute_def Let_def)
next
  case (WERObj c)
  then have "length (counters c) = 4" using assms by (simp add: well_shaped_def KEYS_def)
  then obtain H S D I where "counters c = [H, S, D, I]"
    by (auto simp: numeral_eq_Suc length_Suc_conv)
  then show ?thesis using WERObj
    by (simp add: metric_compute_def WER_compute_def KEYS_def lookup_def enumerate_eq_zip Let_def)
next
  case (ETObj e)
  then show ?thesis by (simp add: metric_compute_def ET_compute_def Let_def)
qed

lemma Metrics_compute_items_ok:
  "(\<forall>k a. (k, Metric a) \<in> set reg \<longrightarrow> well_shaped (heap w a)) \<Longrightarrow>
   \<exists>res. fst (Metrics_compute_items sv prefix False reg results synced w) = Inr res"
proof (induction reg arbitrary: results synced w)
  case Nil
  show ?case by simp
next
  case (Cons kv items)
  obtain k v where kv: "kv = (k, v)" by (cases kv)
  show ?case
  proof (cases v)
    case (Plain x)
    have "\<forall>k a. (k, Metric a) \<in> set items \<longrightarrow> well_shaped (heap w a)"
      using Cons.prems by simp
    from Cons.IH [OF this] show ?thesis by (simp add: kv Plain)
  next
    case (Metric a)
    have "well_shaped (heap w a)" using Cons.prems by (simp add: kv Metric)
    then obtain f where f: "fst (metric_compute sv a w) = Inr f"
      using metric_compute_ok by blast
    define w1 where "w1 = snd (metric_compute sv a w)"
    have c: "metric_compute sv a w = (Inr f, w1)"
      using f by (simp add: w1_def prod_eq_iff)
    have "well_shaped (heap w1 b) = well_shaped (heap w b)" for b
      unfolding w1_def by (rule well_shaped_accumulator) (rule metric_compute_accumulators)
    then have "\<forall>k a. (k, Metric a) \<in> set items \<longrightarrow> well_shaped (heap w1 a)"
      using Cons.prems by simp
    from Cons.IH [OF this] show ?thesis by (simp add: kv Metric c)
  qed
qed

lemma Metrics_compute_items_results:
  "Metrics_compute_items sv prefix False reg results synced w = (Inr res, out) \<Longrightarrow>
   distinct (map fst reg) \<Longrightarrow>
   (\<forall>key. key \<notin> (\<lambda>k. prefix @ k) ` fst ` set reg \<longrightarrow> res key = results key) \<and>
   (\<forall>k x. (k, Plain x) \<in> set reg \<longrightarrow> res (prefix @ k) = Some (Passed x)) \<and>
   (\<forall>k a. (k, Metric a) \<in> set reg \<longrightarrow> (\<exists>v. res (prefix @ k) = Some (Float v)))"
proof (induction reg arbitrary: results synced w)
  case Nil
  then show ?case by simp
next
  case (Cons kv items)
  obtain k0 v0 where kv: "kv = (k0, v0)" by (cases kv)
  have d: "distinct (map fst items)" and fresh: "k0 \<notin> fst ` set items"
    using Cons.prems(2) by (simp_all add: kv)
  have fresh': "prefix @ k0 \<notin> (\<lambda>k. prefix @ k) ` fst ` set items"
    using fresh by auto
  have other: "(k, v) \<in> set items \<Longrightarrow> k \<noteq> k0" for k v
    using fresh by force
  show ?case
  proof (cases v0)
    case (Plain x0)
    have run: "Metrics_compute_items sv prefix False items (results(prefix @ k0 \<mapsto> Passed x0)) synced w
        = (Inr res, out)"
      using Cons.prems(1) by (simp add: kv Plain)
    note IH = Cons.IH [OF run d]
    have here: "res (prefix @ k0) = Some (Passed x0)"
      using IH fresh' by simp
    show ?thesis
      using IH here other by (auto simp: kv Plain)
  next
    case (Metric a0)
    obtain r w1 where c: "metric_compute sv a0 w = (r, w1)" by (cases "metric_compute sv a0 w")
    obtain f where r: "r = Inr f"
      using Cons.prems(1) c by (cases r) (simp_all add: kv Metric)
    have run: "Metrics_compute_items sv prefix False items (results(prefix @ k0 \<mapsto> Float f)) synced w1
        = (Inr res, out)"
      using Cons.prems(1) c r by (simp add: kv Metric)
    note IH = Cons.IH [OF run d]
    have here: "res (prefix @ k0) = Some (Float f)"
      using IH fresh' by simp
    show ?thesis
      using IH here other by (auto simp: kv Metric)
  qed
qed

section \<open>Helper lemmas: the Filter Stage\<close>

lemma consume_exhausted:
  "consume fn \<lparr>source = src, rest = []\<rparr> seen = (Inr (), seen, \<lparr>source = src, rest = []\<rparr>)"
  by (subst consume.simps) (simp add: filter_next_def)

lemma consume_yield:
  "fn x = Inr True \<Longrightarrow>
   consume fn \<lparr>source = src, rest = x # xs\<rparr> seen =
     consume fn \<lparr>source = src, rest = xs\<rparr> (seen @ [x])"
  by (subst consume.simps) (simp add: filter_next_def)

lemma consume_skip:
  "fn x = Inr False \<Longrightarrow>
   consume fn \<lparr>source = src, rest = x # xs\<rparr> seen = consume fn \<lparr>source = src, rest = xs\<rparr> seen"
  by (subst consume.simps, subst (2) consume.simps) (simp add: filter_next_def)

lemma consume_raise:
  "fn x = Inl e \<Longrightarrow>
   consume fn \<lparr>source = src, rest = x # xs\<rparr> seen = (Inl e, seen, \<lparr>source = src, rest = xs\<rparr>)"
  by (subst consume.simps) (simp add: filter_next_def)

lemma consume_total:
  "consume (\<lambda>x. Inr (q x)) \<lparr>source = src, rest = xs\<rparr> seen =
     (Inr (), seen @ filter q xs, \<lparr>source = src, rest = []\<rparr>)"
proof (induction xs arbitrary: seen)
  case Nil
  show ?case by (simp add: consume_exhausted)
next
  case (Cons x xs)
  show ?case
  proof (cases "q x")
    case True
    then show ?thesis using Cons.IH [of "seen @ [x]"] by (simp add: consume_yield)
  next
    case False
    then show ?thesis using Cons.IH [of seen] by (simp add: consume_skip)
  qed
qed

lemma consume_fails:
  "fn x = Inl e \<Longrightarrow> \<forall>y \<in> set pre. \<exists>b. fn y = Inr b \<Longrightarrow>
   consume fn \<lparr>source = src, rest = pre @ x # post\<rparr> seen =
     (Inl e, seen @ filter (\<lambda>y. fn y = Inr True) pre, \<lparr>source = src, rest = post\<rparr>)"
proof (induction pre arbitrary: seen)
  case Nil
  then show ?case by (simp add: consume_raise)
next
  case (Cons y ys)
  from Cons.prems(2) obtain b where b: "fn y = Inr b" by auto
  have rest: "\<forall>y \<in> set ys. \<exists>b. fn y = Inr b" using Cons.prems(2) by simp
  show ?case
  proof (cases b)
    case True
    then show ?thesis
      using b Cons.IH [OF Cons.prems(1) rest, of "seen @ [y]"] by (simp add: consume_yield)
  next
    case False
    then show ?thesis
      using b Cons.IH [OF Cons.prems(1) rest, of seen] by (simp add: consume_skip)
  qed
qed

section \<open>Helper lemmas: the example worlds\<close>

lemmas round32_values = round32_0 round32_1 round32_numeral round32_half round32_tie

lemma world0_heap:
  "heap world0 0 = ETObj \<lparr>num_total = Fin 4, start_time = Fin 7, start_time_inference = False\<rparr>"
  "heap world0 (Suc 0) =
     ETObj \<lparr>num_total = Fin 2, start_time = Fin 5, start_time_inference = False\<rparr>"
  "heap world0 2 = ETObj \<lparr>num_total = Fin 1, start_time = Fin 9, start_time_inference = False\<rparr>"
  "heap world0 3 = BleuObj \<lparr>bleu_counts = [1, 2], num_refs = 1, metric_num_refs = 0\<rparr>"
  "heap world0 4 = BleuObj \<lparr>bleu_counts = [3, 4], num_refs = 2, metric_num_refs = 0\<rparr>"
  "heap world0 5 = WERObj \<lparr>counters = [3, 0, 0, 0]\<rparr>"
  "heap world0 6 = WERObj \<lparr>counters = [6, 1, 1, 2]\<rparr>"
  "heap world0 7 =
     ETObj \<lparr>num_total = Fin 16777216, start_time = Fin 7, start_time_inference = False\<rparr>"
  "heap world0 8 = WERObj \<lparr>counters = [1073741824, 1073741824, 1073741824, 0]\<rparr>"
  "ticks world0 = 0"
  by (simp_all add: world0_def)

lemma sv0_clock: "perf_counter sv0 n = real n + 10"
  by (simp add: sv0_def)

lemma sv_late_clock: "perf_counter sv_late n = real n + 16777217"
  by (simp add: sv_late_def)

lemma world_merged_heap:
  "heap world_merged 0 =
     ETObj \<lparr>num_total = Fin 6, start_time = Fin 5, start_time_inference = True\<rparr>"
  "heap world_merged 5 = WERObj \<lparr>counters = [3, 0, 0, 0]\<rparr>"
  "ticks world_merged = 0"
  by (simp_all add: world_merged_def world0_heap round32_values)

text \<open>
  Resetting a registry that holds a merged EffectiveThroughput stops at that entry: the
  call raises, and the WER registered after it keeps its counters.
\<close>

lemma Metrics_reset_aborts_on_merged:
  "fst (Metrics_reset sv0 registry_merged world_merged) = Inl RuntimeError \<and>
   heap (snd (Metrics_reset sv0 registry_merged world_merged)) 5 =
     WERObj \<lparr>counters = [3, 0, 0, 0]\<rparr>"
  by (simp add: registry_merged_def endswith_def metric_reset_def ET_reset_def
        world_merged_heap)

lemma Metrics_reset_registry0:
  "fst (Metrics_reset sv0 registry0 world0) = Inr () \<and>
   heap (snd (Metrics_reset sv0 registry0 world0)) 0 =
     ETObj \<lparr>num_total = Fin 4, start_time = Fin 10, start_time_inference = False\<rparr> \<and>
   heap (snd (Metrics_reset sv0 registry0 world0)) 3 =
     BleuObj \<lparr>bleu_counts = [0, 0], num_refs = 0, metric_num_refs = 0\<rparr> \<and>
   heap (snd (Metrics_reset sv0 registry0 world0)) 5 = WERObj \<lparr>counters = [0, 0, 0, 0]\<rparr>"
  by (simp add: registry0_def endswith_def metric_reset_def ET_reset_def world0_heap
        sv0_clock round32_values)

lemma Metrics_compute_registry0:
  "\<exists>results. fst (Metrics_compute sv0 ''eval_'' True registry0 world0) = Inr results \<and>
     results ''eval_throughput'' = Some (Float (Fin 1)) \<and>
     results ''eval_bleu'' = Some (Float (Fin 3)) \<and>
     results ''eval_wer'' = Some (Float (Fin 0))"
  by (simp add: Metrics_compute_def registry0_def metric_compute_def ET_compute_def
        Bleu_compute_def WER_compute_def KEYS_def lookup_def enumerate_eq_zip
        world0_heap sv0_clock sv0_def Let_def round32_values)

section \<open>Properties of EffectiveThroughput\<close>

text \<open>
  C4. \<^verbatim>\<open>m.update(n)\<close> on an EffectiveThroughput \<open>m\<close>: for \<open>n < 0\<close> it raises
  \<^verbatim>\<open>ValueError\<close>, for \<open>n\<close> of \<open>2 ^ 64\<close> or more \<^verbatim>\<open>OverflowError\<close>, and either way
  leaves the whole world, so the count and the start time of \<open>m\<close>, as it was. For
  \<open>0 \<le> n < 2 ^ 63\<close> it returns \<open>m\<close> itself, the count of \<open>m\<close> is the \<^verbatim>\<open>float32\<close> sum
  of the old count and \<open>n\<close>, its start time is the same, and no other object and no
  clock reading is touched. The sum is the exact one, the old count plus \<open>n\<close>, whenever
  the old count is a non-negative integer and the new one is at most \<open>2 ^ 24\<close>.
\<close>

theorem ET_update_spec:
  assumes "heap w self = ETObj e"
  shows "(n < 0 \<longrightarrow> ET_update self n w = (Inl ValueError, w)) \<and>
         (2 ^ 64 \<le> n \<longrightarrow> ET_update self n w = (Inl OverflowError, w)) \<and>
         (0 \<le> n \<and> n < 2 ^ 63 \<longrightarrow>
            fst (ET_update self n w) = Inr self \<and>
            heap (snd (ET_update self n w)) self =
              ETObj (e\<lparr>num_total := add32 (num_total e) (round32 (real_of_int n))\<rparr>) \<and>
            (\<forall>a. a \<noteq> self \<longrightarrow> heap (snd (ET_update self n w)) a = heap w a) \<and>
            ticks (snd (ET_update self n w)) = ticks w) \<and>
         (\<forall>k. 0 \<le> k \<and> 0 \<le> n \<and> k + n \<le> 2 ^ 24 \<and> num_total e = Fin (real_of_int k) \<longrightarrow>
            heap (snd (ET_update self n w)) self =
              ETObj (e\<lparr>num_total := Fin (real_of_int (k + n))\<rparr>))"
proof (intro conjI impI allI)
  assume "n < 0"
  then show "ET_update self n w = (Inl ValueError, w)" by (simp add: ET_update_def)
next
  assume "2 ^ 64 \<le> n"
  then show "ET_update self n w = (Inl OverflowError, w)"
    using assms by (simp add: ET_update_def)
next
  assume n: "0 \<le> n \<and> n < 2 ^ 63"
  then have run: "ET_update self n w =
      (Inr self,
       w\<lparr>heap := (heap w)(self :=
            ETObj (e\<lparr>num_total := add32 (num_total e) (round32 (real_of_int n))\<rparr>))\<rparr>)"
    using assms by (simp add: ET_update_def)
  show "fst (ET_update self n w) = Inr self" by (simp add: run)
  show "heap (snd (ET_update self n w)) self =
      ETObj (e\<lparr>num_total := add32 (num_total e) (round32 (real_of_int n))\<rparr>)"
    by (simp add: run)
  show "ticks (snd (ET_update self n w)) = ticks w" by (simp add: run)
  fix a assume "a \<noteq> self"
  then show "heap (snd (ET_update self n w)) a = heap w a" by (simp add: run)
next
  fix k
  assume k: "0 \<le> k \<and> 0 \<le> n \<and> k + n \<le> 2 ^ 24 \<and> num_total e = Fin (real_of_int k)"
  then have "\<bar>n\<bar> \<le> 2 ^ 24" by simp
  then have n: "round32 (real_of_int n) = Fin (real_of_int n)" by (rule round32_of_int)
  have sum: "add32 (Fin (real_of_int k)) (Fin (real_of_int n)) = Fin (real_of_int (k + n))"
    using k by (intro add32_int_exact) simp_all
  have "n < 2 ^ 64" using k by simp
  then show "heap (snd (ET_update self n w)) self =
      ETObj (e\<lparr>num_total := Fin (real_of_int (k + n))\<rparr>)"
    using assms k n sum by (simp add: ET_update_def)
qed

theorem ET_update_spec_witness:
  "heap world0 0 = ETObj \<lparr>num_total = Fin 4, start_time = Fin 7, start_time_inference = False\<rparr> \<and>
   ET_update 0 (- 1) world0 = (Inl ValueError, world0) \<and>
   ET_update 0 (2 ^ 64) world0 = (Inl OverflowError, world0) \<and>
   fst (ET_update 0 3 world0) = Inr 0 \<and>
   heap (snd (ET_update 0 3 world0)) 0 =
     ETObj \<lparr>num_total = Fin 7, start_time = Fin 7, start_time_inference = False\<rparr> \<and>
   heap (snd (ET_update 0 3 world0)) 2 = heap world0 2 \<and>
   ticks (snd (ET_update 0 3 world0)) = ticks world0"
proof -
  have h: "heap world0 0 =
      ETObj \<lparr>num_total = Fin 4, start_time = Fin 7, start_time_inference = False\<rparr>"
    by (rule world0_heap)
  note neg = ET_update_spec [OF h, of "- 1"]
  note big = ET_update_spec [OF h, of "2 ^ 64"]
  note ok = ET_update_spec [OF h, of 3]
  have 1: "ET_update 0 (- 1) world0 = (Inl ValueError, world0)" using neg by simp
  have 2: "ET_update 0 (2 ^ 64) world0 = (Inl OverflowError, world0)" using big by simp
  have 3: "fst (ET_update 0 3 world0) = Inr 0 \<and>
      heap (snd (ET_update 0 3 world0)) 2 = heap world0 2 \<and>
      ticks (snd (ET_update 0 3 world0)) = ticks world0"
    using ok by simp
  have "0 \<le> (4::int) \<and> 0 \<le> (3::int) \<and> (4::int) + 3 \<le> 2 ^ 24 \<and>
      num_total \<lparr>num_total = Fin 4, start_time = Fin 7, start_time_inference = False\<rparr> =
        Fin (real_of_int 4)"
    by simp
  then have 4: "heap (snd (ET_update 0 3 world0)) 0 =
      ETObj \<lparr>num_total = Fin 7, start_time = Fin 7, start_time_inference = False\<rparr>"
    using ok by (auto dest!: spec [of _ 4])
  show ?thesis using h 1 2 3 4 by simp
qed

text \<open>
  The claim as stated fails twice: at a count of \<open>2 ^ 24\<close>, \<^verbatim>\<open>update(1)\<close> returns
  normally and leaves the count at \<open>2 ^ 24\<close>, since \<open>2 ^ 24 + 1\<close> is not a \<^verbatim>\<open>float32\<close>;
  and \<^verbatim>\<open>update(2 ** 64)\<close> raises \<^verbatim>\<open>OverflowError\<close> although \<open>n \<ge> 0\<close>.
\<close>

theorem ET_update_adds_n_counterexample:
  "fst (ET_update 7 1 world0) = Inr 7 \<and>
   heap (snd (ET_update 7 1 world0)) 7 =
     ETObj \<lparr>num_total = Fin 16777216, start_time = Fin 7, start_time_inference = False\<rparr> \<and>
   fst (ET_update 0 (2 ^ 64) world0) = Inl OverflowError"
  by (simp add: ET_update_def world0_heap round32_values)

text \<open>
  C1. \<^verbatim>\<open>m.merge_state(peers)\<close> on an EffectiveThroughput \<open>m\<close> whose peers are
  EffectiveThroughput instances other than \<open>m\<close> (the same peer may occur more than once):
  the call returns \<open>m\<close> itself, and afterwards the object \<open>m\<close> holds as its count the
  peers' counts added to its previous count one after the other, in \<^verbatim>\<open>float32\<close>, and as
  its start time the \<^verbatim>\<open>torch.min\<close> of its previous start time and the peers' start
  times. The count is the exact sum whenever all the counts are non-negative integers with
  a sum of at most \<open>2 ^ 24\<close>; the start time is the minimum whenever all start times are
  numbers.
\<close>

theorem ET_merge_state_sums_counts_min_start:
  assumes "heap w self = ETObj e"
    and "map (heap w) peers = map ETObj es"
    and "self \<notin> set peers"
  shows "fst (merge_state self peers w) = Inr self \<and>
         (\<exists>e'. heap (snd (merge_state self peers w)) self = ETObj e' \<and>
            num_total e' = foldl add32 (num_total e) (map num_total es) \<and>
            start_time e' = foldl min32 (start_time e) (map start_time es) \<and>
            (\<forall>c cs. num_total e = Fin (real_of_int c) \<and>
                    map num_total es = map (\<lambda>k. Fin (real_of_int k)) cs \<and>
                    0 \<le> c \<and> (\<forall>k \<in> set cs. 0 \<le> k) \<and> c + sum_list cs \<le> 2 ^ 24 \<longrightarrow>
                num_total e' = Fin (real_of_int (c + sum_list cs))) \<and>
            (\<forall>t ts. start_time e = Fin t \<and> map start_time es = map Fin ts \<longrightarrow>
                start_time e' = Fin (Min (set (t # ts)))))"
proof -
  define e' where "e' = \<lparr>num_total = foldl add32 (num_total e) (map num_total es),
      start_time = foldl min32 (start_time e) (map start_time es),
      start_time_inference = (start_time_inference e \<or> peers \<noteq> [])\<rparr>"
  have run: "merge_state self peers w = ET_merge_state self peers w"
    using assms(1) by (simp add: merge_state_def)
  have res: "fst (merge_state self peers w) = Inr self"
    "heap (snd (merge_state self peers w)) self = ETObj e'"
    unfolding run e'_def
    using ET_merge_state_result [OF assms(3) assms(2) assms(1)] by simp_all
  have exact: "num_total e' = Fin (real_of_int (c + sum_list cs))"
    if "num_total e = Fin (real_of_int c) \<and>
        map num_total es = map (\<lambda>k. Fin (real_of_int k)) cs \<and>
        0 \<le> c \<and> (\<forall>k \<in> set cs. 0 \<le> k) \<and> c + sum_list cs \<le> 2 ^ 24" for c cs
    using that foldl_add32_exact [of c cs] by (simp add: e'_def)
  have least: "start_time e' = Fin (Min (set (t # ts)))"
    if "start_time e = Fin t \<and> map start_time es = map Fin ts" for t ts
    using that foldl_min32_Fin [of t ts] by (simp add: e'_def)
  have "num_total e' = foldl add32 (num_total e) (map num_total es)"
    and "start_time e' = foldl min32 (start_time e) (map start_time es)"
    by (simp_all add: e'_def)
  then show ?thesis using res exact least by blast
qed

theorem ET_merge_state_sums_counts_min_start_witness:
  "heap world0 0 = ETObj \<lparr>num_total = Fin 4, start_time = Fin 7, start_time_inference = False\<rparr> \<and>
   map (heap world0) [1, 2] =
     map ETObj [\<lparr>num_total = Fin 2, start_time = Fin 5, start_time_inference = False\<rparr>,
                \<lparr>num_total = Fin 1, start_time = Fin 9, start_time_inference = False\<rparr>] \<and>
   0 \<notin> set [1, 2 :: nat] \<and>
   fst (merge_state 0 [1, 2] world0) = Inr 0 \<and>
   (\<exists>e'. heap (snd (merge_state 0 [1, 2] world0)) 0 = ETObj e' \<and>
      num_total e' = Fin 7 \<and> start_time e' = Fin 5)"
proof -
  have h1: "heap world0 0 =
      ETObj \<lparr>num_total = Fin 4, start_time = Fin 7, start_time_inference = False\<rparr>"
    by (rule world0_heap)
  have h2: "map (heap world0) [1, 2] =
     map ETObj [\<lparr>num_total = Fin 2, start_time = Fin 5, start_time_inference = False\<rparr>,
                \<lparr>num_total = Fin 1, start_time = Fin 9, start_time_inference = False\<rparr>]"
    by (simp add: world0_heap)
  have h3: "0 \<notin> set [1, 2 :: nat]" by simp
  from ET_merge_state_sums_counts_min_start [OF h1 h2 h3]
  obtain e' where r: "fst (merge_state 0 [1, 2] world0) = Inr 0"
    and e': "heap (snd (merge_state 0 [1, 2] world0)) 0 = ETObj e'"
    and cnt: "\<forall>c cs. num_total \<lparr>num_total = Fin 4, start_time = Fin 7,
                                start_time_inference = False\<rparr> = Fin (real_of_int c) \<and>
        map num_total [\<lparr>num_total = Fin 2, start_time = Fin 5, start_time_inference = False\<rparr>,
                       \<lparr>num_total = Fin 1, start_time = Fin 9, start_time_inference = False\<rparr>] =
          map (\<lambda>k. Fin (real_of_int k)) cs \<and>
        0 \<le> c \<and> (\<forall>k \<in> set cs. 0 \<le> k) \<and> c + sum_list cs \<le> 2 ^ 24 \<longrightarrow>
        num_total e' = Fin (real_of_int (c + sum_list cs))"
    and st: "\<forall>t ts. start_time \<lparr>num_total = Fin 4, start_time = Fin 7,
                                start_time_inference = False\<rparr> = Fin t \<and>
        map start_time [\<lparr>num_total = Fin 2, start_time = Fin 5, start_time_inference = False\<rparr>,
                        \<lparr>num_total = Fin 1, start_time = Fin 9, start_time_inference = False\<rparr>] =
          map Fin ts \<longrightarrow>
        start_time e' = Fin (Min (set (t # ts)))"
    by blast
  have "num_total e' = Fin (real_of_int (4 + sum_list [2, 1]))"
    by (rule cnt [rule_format]) simp
  then have n: "num_total e' = Fin 7" by simp
  have "start_time e' = Fin (Min (set [7, 5, 9]))"
    by (rule st [rule_format]) simp
  then have s: "start_time e' = Fin 5" by simp
  show ?thesis using h1 h2 r e' n s by auto
qed

text \<open>
  The claim as stated fails twice. With \<open>m\<close> among its own peers, \<^verbatim>\<open>m.merge_state([p, m])\<close>
  for counts 4 and 2 leaves 12, not \<open>4 + (2 + 4) = 10\<close>: the second round reads the count
  the first round wrote. And a count of \<open>2 ^ 24\<close> merged with a peer's count of 1 stays
  \<open>2 ^ 24\<close>, since \<open>2 ^ 24 + 1\<close> is not a \<^verbatim>\<open>float32\<close>.
\<close>

theorem ET_merge_state_exact_sum_counterexample:
  "heap (snd (merge_state 0 [1, 0] world0)) 0 =
     ETObj \<lparr>num_total = Fin 12, start_time = Fin 5, start_time_inference = True\<rparr> \<and>
   heap (snd (merge_state 7 [2] world0)) 7 =
     ETObj \<lparr>num_total = Fin 16777216, start_time = Fin 7, start_time_inference = True\<rparr>"
  by (simp add: merge_state_def world0_heap round32_values)

text \<open>
  C8. \<^verbatim>\<open>reset()\<close> on an EffectiveThroughput whose \<^verbatim>\<open>start_time\<close> no \<^verbatim>\<open>merge_state\<close>
  has bound returns the object itself, writes the clock reading it takes, as a
  \<^verbatim>\<open>float32\<close>, into \<^verbatim>\<open>start_time\<close> and leaves \<^verbatim>\<open>num_total\<close> as it was; the
  \<^verbatim>\<open>compute()\<close> that follows divides that surviving count by the \<^verbatim>\<open>float32\<close> time between
  the reading of the reset and its own reading.
\<close>

theorem ET_reset_restamps_start_only:
  assumes "heap w self = ETObj e" and "\<not> start_time_inference e"
  shows "fst (ET_reset sv self w) = Inr self \<and>
         heap (snd (ET_reset sv self w)) self =
           ETObj (e\<lparr>start_time := round32 (perf_counter sv (ticks w))\<rparr>) \<and>
         fst (ET_compute sv self (snd (ET_reset sv self w))) =
           Inr (div32 (num_total e)
                  (add32 (neg32 (round32 (perf_counter sv (ticks w))))
                         (round32 (perf_counter sv (Suc (ticks w))))))"
  using assms by (simp add: ET_reset_def ET_compute_def)

theorem ET_reset_restamps_start_only_witness:
  "heap world0 0 = ETObj \<lparr>num_total = Fin 4, start_time = Fin 7, start_time_inference = False\<rparr> \<and>
   fst (ET_reset sv0 0 world0) = Inr 0 \<and>
   heap (snd (ET_reset sv0 0 world0)) 0 =
     ETObj \<lparr>num_total = Fin 4, start_time = Fin 10, start_time_inference = False\<rparr> \<and>
   fst (ET_compute sv0 0 (snd (ET_reset sv0 0 world0))) = Inr (Fin 4)"
proof -
  have h: "heap world0 0 =
      ETObj \<lparr>num_total = Fin 4, start_time = Fin 7, start_time_inference = False\<rparr>"
    by (rule world0_heap)
  have f: "\<not> start_time_inference
      \<lparr>num_total = Fin 4, start_time = Fin 7, start_time_inference = False\<rparr>"
    by simp
  show ?thesis
    using h ET_reset_restamps_start_only [OF h f, of sv0]
    by (simp add: world0_heap sv0_clock round32_values)
qed

text \<open>
  The claim as stated fails twice. After \<^verbatim>\<open>m.merge_state([p])\<close> the tensor bound to
  \<^verbatim>\<open>start_time\<close> is an inference tensor and \<^verbatim>\<open>m.reset()\<close> raises \<^verbatim>\<open>RuntimeError\<close>. And
  at a clock reading of \<open>2 ^ 24 + 1\<close> the start time written is \<open>2 ^ 24\<close>, not the
  reading.
\<close>

theorem ET_reset_restamps_counterexample:
  "fst (ET_reset sv0 0 world_merged) = Inl RuntimeError \<and>
   perf_counter sv_late (ticks world0) = 16777217 \<and>
   heap (snd (ET_reset sv_late 0 world0)) 0 =
     ETObj \<lparr>num_total = Fin 4, start_time = Fin 16777216, start_time_inference = False\<rparr>"
  by (simp add: ET_reset_def world_merged_heap world0_heap sv_late_clock round32_values)

section \<open>Properties of merge_state on every CounterBasedMetric\<close>

text \<open>
  C10. \<^verbatim>\<open>m.merge_state(peers)\<close>, for \<open>m\<close> of any of the three classes and whatever the
  peers are, writes to the object \<open>m\<close> only: every peer other than \<open>m\<close> is afterwards
  exactly the object it was before, also when the call raises half-way.
\<close>

theorem merge_state_leaves_peers:
  "\<forall>p \<in> set peers. p \<noteq> self \<longrightarrow> heap (snd (merge_state self peers w)) p = heap w p"
  by (simp add: merge_state_heap_frame)

theorem merge_state_leaves_peers_witness:
  "4 \<in> set [4 :: nat] \<and> (4 :: nat) \<noteq> 3 \<and>
   heap (snd (merge_state 3 [4] world0)) 4 = heap world0 4 \<and>
   heap (snd (merge_state 3 [4] world0)) 3 =
     BleuObj \<lparr>bleu_counts = [4, 6], num_refs = 3, metric_num_refs = 0\<rparr>"
proof -
  have "heap (snd (merge_state 3 [4] world0)) 3 =
     BleuObj \<lparr>bleu_counts = [4, 6], num_refs = 3, metric_num_refs = 0\<rparr>"
    by (simp add: merge_state_def CounterBasedMetric_merge_state_def world0_heap tensor_iadd_def)
  then show ?thesis
    using merge_state_leaves_peers [of "[4]" 3 world0] by simp
qed

section \<open>Properties of WER\<close>

text \<open>
  C9. \<^verbatim>\<open>compute()\<close> on a WER whose counters are hits \<open>H\<close>, substitutions \<open>S\<close>,
  deletions \<open>D\<close> and insertions \<open>I\<close> leaves the world, so the counters, as it was, and
  returns the \<^verbatim>\<open>float32\<close> quotient of the two \<^verbatim>\<open>int32\<close> sums \<open>S + D + I\<close> and
  \<open>S + D + H\<close>. When neither sum of the counters' values leaves the range of \<^verbatim>\<open>int32\<close>,
  these are the sums of the values; when moreover \<open>S + D + H > 0\<close> and both sums are at
  most \<open>2 ^ 24\<close> in magnitude, the result is \<open>(S + D + I) / (S + D + H)\<close> rounded to
  \<^verbatim>\<open>float32\<close>.
\<close>

theorem WER_compute_ratio:
  assumes "heap w self = WERObj c"
    and "counters c = [H, S, D, I]"
  shows "WER_compute self w =
           (Inr (div32 (round32 (real_of_int (sint (S + D + I))))
                       (round32 (real_of_int (sint (S + D + H))))), w) \<and>
         (- (2 ^ 31) \<le> sint S + sint D + sint I \<and> sint S + sint D + sint I < 2 ^ 31 \<and>
          - (2 ^ 31) \<le> sint S + sint D + sint H \<and> sint S + sint D + sint H < 2 ^ 31 \<longrightarrow>
          fst (WER_compute self w) =
            Inr (div32 (round32 (real_of_int (sint S + sint D + sint I)))
                       (round32 (real_of_int (sint S + sint D + sint H))))) \<and>
         (\<bar>sint S + sint D + sint I\<bar> \<le> 2 ^ 24 \<and>
          0 < sint S + sint D + sint H \<and> sint S + sint D + sint H \<le> 2 ^ 24 \<longrightarrow>
          fst (WER_compute self w) =
            Inr (round32 (real_of_int (sint S + sint D + sint I) /
                          real_of_int (sint S + sint D + sint H))))"
proof -
  have code: "WER_compute self w =
      (Inr (div32 (round32 (real_of_int (sint (S + D + I))))
                  (round32 (real_of_int (sint (S + D + H))))), w)"
    using assms
    by (simp add: WER_compute_def KEYS_def lookup_def enumerate_eq_zip Let_def
          del: of_int_sint)
  have exact: "sint (S + D + I) = sint S + sint D + sint I \<and>
               sint (S + D + H) = sint S + sint D + sint H"
    if "- (2 ^ 31) \<le> sint S + sint D + sint I \<and> sint S + sint D + sint I < 2 ^ 31 \<and>
        - (2 ^ 31) \<le> sint S + sint D + sint H \<and> sint S + sint D + sint H < 2 ^ 31"
    using that sint_add3_exact [of S D I] sint_add3_exact [of S D H] by blast
  show ?thesis
  proof (intro conjI impI)
    show "WER_compute self w =
      (Inr (div32 (round32 (real_of_int (sint (S + D + I))))
                  (round32 (real_of_int (sint (S + D + H))))), w)"
      by (rule code)
  next
    assume "- (2 ^ 31) \<le> sint S + sint D + sint I \<and> sint S + sint D + sint I < 2 ^ 31 \<and>
        - (2 ^ 31) \<le> sint S + sint D + sint H \<and> sint S + sint D + sint H < 2 ^ 31"
    from exact [OF this] show "fst (WER_compute self w) =
        Inr (div32 (round32 (real_of_int (sint S + sint D + sint I)))
                   (round32 (real_of_int (sint S + sint D + sint H))))"
      unfolding code by (simp only: fst_conv)
  next
    assume small: "\<bar>sint S + sint D + sint I\<bar> \<le> 2 ^ 24 \<and>
        0 < sint S + sint D + sint H \<and> sint S + sint D + sint H \<le> 2 ^ 24"
    then have "- (2 ^ 31) \<le> sint S + sint D + sint I \<and> sint S + sint D + sint I < 2 ^ 31 \<and>
        - (2 ^ 31) \<le> sint S + sint D + sint H \<and> sint S + sint D + sint H < 2 ^ 31"
      by (auto simp: abs_le_iff)
    from exact [OF this] have sums: "sint (S + D + I) = sint S + sint D + sint I"
      "sint (S + D + H) = sint S + sint D + sint H" by simp_all
    have i: "round32 (real_of_int (sint S + sint D + sint I)) =
        Fin (real_of_int (sint S + sint D + sint I))"
      using small by (intro round32_of_int) simp
    have h: "round32 (real_of_int (sint S + sint D + sint H)) =
        Fin (real_of_int (sint S + sint D + sint H))"
      using small by (intro round32_of_int) simp
    have "sint S + sint D + sint H \<noteq> 0" using small by linarith
    then have ne: "real_of_int (sint S + sint D + sint H) \<noteq> 0"
      by (simp only: of_int_eq_0_iff not_False_eq_True)
    show "fst (WER_compute self w) =
        Inr (round32 (real_of_int (sint S + sint D + sint I) /
                      real_of_int (sint S + sint D + sint H)))"
      unfolding code sums i h by (simp only: fst_conv div32.simps ne not_False_eq_True if_True)
  qed
qed

theorem WER_compute_ratio_witness:
  "heap world0 6 = WERObj \<lparr>counters = [6, 1, 1, 2]\<rparr> \<and>
   counters \<lparr>counters = [6, 1, 1, 2]\<rparr> = [6, 1, 1, 2] \<and>
   WER_compute 6 world0 = (Inr (Fin (1 / 2)), world0) \<and>
   WER_compute 5 world0 = (Inr (Fin 0), world0)"
proof -
  have h6: "heap world0 6 = WERObj \<lparr>counters = [6, 1, 1, 2]\<rparr>"
    by (rule world0_heap)
  have h5: "heap world0 5 = WERObj \<lparr>counters = [3, 0, 0, 0]\<rparr>"
    by (rule world0_heap)
  have c6: "counters \<lparr>counters = [6, 1, 1, 2]\<rparr> = [6, 1, 1, 2 :: 32 word]" by simp
  have c5: "counters \<lparr>counters = [3, 0, 0, 0]\<rparr> = [3, 0, 0, 0 :: 32 word]" by simp
  show ?thesis
    using h6 WER_compute_ratio [OF h6 c6] WER_compute_ratio [OF h5 c5]
    by (simp add: round32_values)
qed

text \<open>
  The claim as stated fails where a sum leaves the range of \<^verbatim>\<open>int32\<close>: with \<open>2 ^ 30\<close>
  hits, substitutions and deletions and no insertion, \<open>S + D + H\<close> is positive and
  \<open>(S + D + I) / (S + D + H)\<close> is 2/3, but both sums wrap to negative numbers and
  \<^verbatim>\<open>compute()\<close> returns 2.
\<close>

theorem WER_compute_ratio_counterexample:
  "heap world0 8 = WERObj \<lparr>counters = [1073741824, 1073741824, 1073741824, 0]\<rparr> \<and>
   0 < sint (1073741824 :: 32 word) + sint (1073741824 :: 32 word) + sint (1073741824 :: 32 word) \<and>
   real_of_int (sint (1073741824 :: 32 word) + sint (1073741824 :: 32 word) + sint (0 :: 32 word)) /
   real_of_int (sint (1073741824 :: 32 word) + sint (1073741824 :: 32 word) +
                sint (1073741824 :: 32 word)) = 2 / 3 \<and>
   fst (WER_compute 8 world0) = Inr (Fin 2)"
proof -
  have a: "round32 (- 2147483648) = Fin (- 2147483648)"
    using round32_representable [of "- 1" 31] by simp
  have b: "round32 (- 1073741824) = Fin (- 1073741824)"
    using round32_representable [of "- 1" 30] by simp
  have "fst (WER_compute 8 world0) = Inr (Fin 2)"
    by (simp add: WER_compute_def KEYS_def lookup_def enumerate_eq_zip Let_def world0_heap
          a b round32_values)
  then show ?thesis by (simp add: world0_heap)
qed

section \<open>Properties of compute\<close>

text \<open>
  C5. Two \<^verbatim>\<open>compute()\<close> calls in a row on a metric of any of the three classes: after
  each of them every object has the accumulator state it had before. A Bleu or a WER
  returns the same value (or raises the same error) both times. An EffectiveThroughput
  returns, each time, the \<^verbatim>\<open>float32\<close> quotient of its count and the \<^verbatim>\<open>float32\<close> time from
  its start time to the clock reading of that call; the second value need not be the
  first.
\<close>

theorem compute_twice:
  assumes "metric_compute sv a w = (r1, w1)" and "metric_compute sv a w1 = (r2, w2)"
  shows "(\<forall>b. accumulator_of (heap w1 b) = accumulator_of (heap w b) \<and>
              accumulator_of (heap w2 b) = accumulator_of (heap w b)) \<and>
         ((\<forall>e. heap w a \<noteq> ETObj e) \<longrightarrow> r2 = r1) \<and>
         (\<forall>e. heap w a = ETObj e \<longrightarrow>
            r1 = Inr (div32 (num_total e)
                        (add32 (neg32 (start_time e)) (round32 (perf_counter sv (ticks w))))) \<and>
            r2 = Inr (div32 (num_total e)
                        (add32 (neg32 (start_time e))
                               (round32 (perf_counter sv (Suc (ticks w)))))))"
proof -
  have w1: "w1 = snd (metric_compute sv a w)" and r1: "r1 = fst (metric_compute sv a w)"
    using assms(1) by simp_all
  have w2: "w2 = snd (metric_compute sv a w1)" and r2: "r2 = fst (metric_compute sv a w1)"
    using assms(2) by simp_all
  have acc1: "accumulator_of (heap w1 b) = accumulator_of (heap w b)" for b
    unfolding w1 by (rule metric_compute_accumulators)
  have acc2: "accumulator_of (heap w2 b) = accumulator_of (heap w b)" for b
    unfolding w2 using metric_compute_accumulators [of sv a w1 b] acc1 [of b] by simp
  have same: "r2 = r1" if "\<forall>e. heap w a \<noteq> ETObj e"
    unfolding r1 r2 using that acc1 [of a] by (rule metric_compute_not_ET)
  have et: "r1 = Inr (div32 (num_total e)
                        (add32 (neg32 (start_time e)) (round32 (perf_counter sv (ticks w))))) \<and>
            r2 = Inr (div32 (num_total e)
                        (add32 (neg32 (start_time e))
                               (round32 (perf_counter sv (Suc (ticks w))))))"
    if "heap w a = ETObj e" for e
  proof -
    have first: "metric_compute sv a w =
        (Inr (div32 (num_total e)
                (add32 (neg32 (start_time e)) (round32 (perf_counter sv (ticks w))))),
         w\<lparr>ticks := Suc (ticks w)\<rparr>)"
      using that by (rule metric_compute_ET)
    then have "w1 = w\<lparr>ticks := Suc (ticks w)\<rparr>" using w1 by simp
    then have "heap w1 a = ETObj e" and "ticks w1 = Suc (ticks w)" using that by simp_all
    then have "metric_compute sv a w1 =
        (Inr (div32 (num_total e)
                (add32 (neg32 (start_time e)) (round32 (perf_counter sv (Suc (ticks w)))))),
         w1\<lparr>ticks := Suc (ticks w1)\<rparr>)"
      using metric_compute_ET [of w1 a e sv] by simp
    then show ?thesis using first r1 r2 by simp
  qed
  show ?thesis using acc1 acc2 same et by blast
qed

theorem compute_twice_witness:
  "heap world0 3 = BleuObj \<lparr>bleu_counts = [1, 2], num_refs = 1, metric_num_refs = 0\<rparr> \<and>
   heap world0 2 = ETObj \<lparr>num_total = Fin 1, start_time = Fin 9, start_time_inference = False\<rparr> \<and>
   fst (metric_compute sv0 3 (snd (metric_compute sv0 3 world0))) = fst (metric_compute sv0 3 world0) \<and>
   fst (metric_compute sv0 3 world0) = Inr (Fin 3) \<and>
   accumulator_of (heap (snd (metric_compute sv0 3 (snd (metric_compute sv0 3 world0)))) 3) =
     BleuAcc [1, 2] 1 \<and>
   fst (metric_compute sv0 2 world0) = Inr (Fin 1) \<and>
   fst (metric_compute sv0 2 (snd (metric_compute sv0 2 world0))) = Inr (Fin (1 / 2))"
proof -
  have h3: "heap world0 3 = BleuObj \<lparr>bleu_counts = [1, 2], num_refs = 1, metric_num_refs = 0\<rparr>"
    by (rule world0_heap)
  have b: "\<forall>e. heap world0 3 \<noteq> ETObj e" by (simp add: world0_heap)
  have e: "heap world0 2 =
      ETObj \<lparr>num_total = Fin 1, start_time = Fin 9, start_time_inference = False\<rparr>"
    by (rule world0_heap)
  have t: "ticks world0 = 0" by (rule world0_heap)
  have v: "fst (metric_compute sv0 3 world0) = Inr (Fin 3)"
    by (simp add: metric_compute_def Bleu_compute_def world0_heap sv0_def round32_values)
  have a3: "accumulator_of (heap world0 3) = BleuAcc [1, 2] 1" by (simp add: world0_heap)
  note i3 = compute_twice [OF prod.collapse [symmetric] prod.collapse [symmetric], of sv0 3 world0]
  note i2 = compute_twice [OF prod.collapse [symmetric] prod.collapse [symmetric], of sv0 2 world0]
  have s3: "fst (metric_compute sv0 3 (snd (metric_compute sv0 3 world0))) =
            fst (metric_compute sv0 3 world0)"
    using i3 b by blast
  have acc3: "accumulator_of (heap (snd (metric_compute sv0 3 (snd (metric_compute sv0 3 world0)))) 3) =
      accumulator_of (heap world0 3)"
    using i3 by blast
  have r2: "fst (metric_compute sv0 2 world0) =
              Inr (div32 (Fin 1) (add32 (neg32 (Fin 9)) (round32 (perf_counter sv0 0)))) \<and>
            fst (metric_compute sv0 2 (snd (metric_compute sv0 2 world0))) =
              Inr (div32 (Fin 1) (add32 (neg32 (Fin 9)) (round32 (perf_counter sv0 (Suc 0)))))"
    using i2 e t by simp
  show ?thesis
    using s3 acc3 r2 h3 e by (simp add: v a3 sv0_clock round32_values)
qed

text \<open>
  The claim as stated, that the second call returns what the first returned, fails for
  the EffectiveThroughput at 2, with a count of 1 and a start time of 9: the clock reads
  10 and then 11, the values are 1 and 1/2.
\<close>

theorem compute_twice_same_value_counterexample:
  "fst (metric_compute sv0 2 world0) = Inr (Fin 1) \<and>
   fst (metric_compute sv0 2 (snd (metric_compute sv0 2 world0))) = Inr (Fin (1 / 2)) \<and>
   fst (metric_compute sv0 2 (snd (metric_compute sv0 2 world0))) \<noteq>
   fst (metric_compute sv0 2 world0)"
  by (simp add: metric_compute_def ET_compute_def world0_heap sv0_clock round32_values)

section \<open>Properties of the registry\<close>

text \<open>
  C6. \<^verbatim>\<open>Registry.reset()\<close> does not change the registry itself, and an object that is
  registered only under names that end with \<^verbatim>\<open>_min\<close> (or not at all) is afterwards
  exactly what it was. When no EffectiveThroughput registered under a name without the
  suffix has a \<^verbatim>\<open>start_time\<close> bound by \<^verbatim>\<open>merge_state\<close>, the call does not raise and every
  metric registered under a name without the suffix has been reset: a Bleu or a WER has
  all its counters at 0, an EffectiveThroughput keeps its count and has a clock reading
  taken during the call, as a \<^verbatim>\<open>float32\<close>, as its start time.
\<close>

theorem Metrics_reset_spec:
  assumes "Metrics_reset sv reg w = (r, w')"
  shows "(\<forall>a. (\<forall>k. (k, Metric a) \<in> set reg \<longrightarrow> endswith k ''_min'') \<longrightarrow> heap w' a = heap w a) \<and>
         ((\<forall>k a. (k, Metric a) \<in> set reg \<and> \<not> endswith k ''_min'' \<longrightarrow>
              reset_allowed (heap w a)) \<longrightarrow>
          r = Inr () \<and>
          (\<forall>k a. (k, Metric a) \<in> set reg \<and> \<not> endswith k ''_min'' \<longrightarrow>
                 reset_outcome sv (ticks w) (ticks w') (heap w a) (heap w' a)))"
proof -
  have r: "r = fst (Metrics_reset sv reg w)" and w': "w' = snd (Metrics_reset sv reg w)"
    using assms by simp_all
  have frame: "heap w' a = heap w a"
    if "\<forall>k. (k, Metric a) \<in> set reg \<longrightarrow> endswith k ''_min''" for a
    unfolding w' using that by (rule Metrics_reset_frame)
  have all_reset: "r = Inr () \<and>
      (\<forall>k a. (k, Metric a) \<in> set reg \<and> \<not> endswith k ''_min'' \<longrightarrow>
             reset_outcome sv (ticks w) (ticks w') (heap w a) (heap w' a))"
    if "\<forall>k a. (k, Metric a) \<in> set reg \<and> \<not> endswith k ''_min'' \<longrightarrow> reset_allowed (heap w a)"
    unfolding r w' using Metrics_reset_props [OF that, of sv] by simp
  show ?thesis using frame all_reset by blast
qed

theorem Metrics_reset_spec_witness:
  "(''loss_min'', Metric 1) \<in> set registry0 \<and> endswith ''loss_min'' ''_min'' \<and>
   (''throughput'', Metric 0) \<in> set registry0 \<and> \<not> endswith ''throughput'' ''_min'' \<and>
   fst (Metrics_reset sv0 registry0 world0) = Inr () \<and>
   heap (snd (Metrics_reset sv0 registry0 world0)) 1 =
     ETObj \<lparr>num_total = Fin 2, start_time = Fin 5, start_time_inference = False\<rparr> \<and>
   reset_outcome sv0 0 (ticks (snd (Metrics_reset sv0 registry0 world0)))
     (ETObj \<lparr>num_total = Fin 4, start_time = Fin 7, start_time_inference = False\<rparr>)
     (ETObj \<lparr>num_total = Fin 4, start_time = Fin 10, start_time_inference = False\<rparr>)"
proof -
  have h1: "\<forall>k. (k, Metric 1) \<in> set registry0 \<longrightarrow> endswith k ''_min''"
    by (auto simp: registry0_def endswith_def)
  have h2: "(''throughput'', Metric 0) \<in> set registry0 \<and> \<not> endswith ''throughput'' ''_min''"
    by (simp add: registry0_def endswith_def)
  have h3: "\<forall>k a. (k, Metric a) \<in> set registry0 \<and> \<not> endswith k ''_min'' \<longrightarrow>
      reset_allowed (heap world0 a)"
    by (auto simp: registry0_def reset_allowed_def world0_heap)
  note i = Metrics_reset_spec [OF prod.collapse [symmetric], where sv = sv0 and reg = registry0
      and w = world0]
  have "heap (snd (Metrics_reset sv0 registry0 world0)) 1 = heap world0 1"
    using i h1 by blast
  moreover have "reset_outcome sv0 (ticks world0) (ticks (snd (Metrics_reset sv0 registry0 world0)))
     (heap world0 0) (heap (snd (Metrics_reset sv0 registry0 world0)) 0)"
    using i h2 h3 by blast
  moreover have "fst (Metrics_reset sv0 registry0 world0) = Inr ()"
    using i h3 by blast
  moreover have "(''loss_min'', Metric 1) \<in> set registry0 \<and> endswith ''loss_min'' ''_min''"
    by (simp add: registry0_def endswith_def)
  ultimately show ?thesis
    using h2 Metrics_reset_registry0 by (simp add: world0_heap)
qed

text \<open>
  The claim as stated fails three times. The EffectiveThroughput registered as
  \<^verbatim>\<open>throughput\<close> is reset and still has its count of 4: it is not back in its zero
  state. An object registered both as \<^verbatim>\<open>wer_min\<close> and as \<^verbatim>\<open>wer\<close> is reset through the
  second name, so the value of the \<^verbatim>\<open>_min\<close> entry is not what it was. And in a registry
  that holds a merged EffectiveThroughput before a WER the call raises at the first of
  the two, and the WER keeps its three hits.
\<close>

theorem Metrics_reset_zero_state_counterexample:
  "\<not> is_zero_state (heap (snd (Metrics_reset sv0 registry0 world0)) 0) \<and>
   heap (snd (Metrics_reset sv0 [(''wer_min'', Metric 5), (''wer'', Metric 5 :: int entry)] world0)) 5
     \<noteq> heap world0 5 \<and>
   fst (Metrics_reset sv0 registry_merged world_merged) = Inl RuntimeError \<and>
   \<not> is_zero_state (heap (snd (Metrics_reset sv0 registry_merged world_merged)) 5)"
  using Metrics_reset_aborts_on_merged
  by (simp add: registry0_def endswith_def metric_reset_def ET_reset_def world0_heap)

text \<open>
  C7. \<^verbatim>\<open>Registry.compute\<close> with \<^verbatim>\<open>sync=True\<close> where the world size is 1: whatever the
  sync layer's \<^verbatim>\<open>sync_and_compute\<close> would do, the call is the call with \<^verbatim>\<open>sync=False\<close>
  (same results, same world afterwards), and no object is handed to
  \<^verbatim>\<open>sync_and_compute\<close>. With every WER of the registry in the shape its constructor
  gives, the call returns results; in them every plain value stands unchanged under
  \<^verbatim>\<open>prefix + name\<close>, and every metric entry has a float, never \<^verbatim>\<open>None\<close>.
\<close>

theorem Metrics_compute_single_worker:
  assumes "get_world_size sv = 1"
  shows "Metrics_compute (sv\<lparr>sync_and_compute := f\<rparr>) prefix True reg w =
           Metrics_compute sv prefix False reg w \<and>
         fst (snd (Metrics_compute sv prefix True reg w)) = [] \<and>
         ((\<forall>k a. (k, Metric a) \<in> set reg \<longrightarrow> well_shaped (heap w a)) \<longrightarrow>
            (\<exists>results. fst (Metrics_compute sv prefix True reg w) = Inr results)) \<and>
         (\<forall>results. fst (Metrics_compute sv prefix True reg w) = Inr results \<and>
                    distinct (map fst reg) \<longrightarrow>
            (\<forall>k x. (k, Plain x) \<in> set reg \<longrightarrow> results (prefix @ k) = Some (Passed x)) \<and>
            (\<forall>k a. (k, Metric a) \<in> set reg \<longrightarrow> (\<exists>v. results (prefix @ k) = Some (Float v))))"
proof -
  have local: "Metrics_compute sv prefix True reg w =
      Metrics_compute_items sv prefix False reg Map.empty [] w"
    using assms by (simp add: Metrics_compute_def)
  have 1: "Metrics_compute (sv\<lparr>sync_and_compute := f\<rparr>) prefix True reg w =
           Metrics_compute sv prefix False reg w"
    using assms Metrics_compute_items_local [where sv = sv and f = f and prefix = prefix and reg = reg
        and results = Map.empty and synced = "[]" and w = w]
    by (simp add: Metrics_compute_def)
  have 2: "fst (snd (Metrics_compute sv prefix True reg w)) = []"
    unfolding local using Metrics_compute_items_local [where sv = sv and f = f and prefix = prefix and reg = reg
        and results = Map.empty and synced = "[]" and w = w]
    by simp
  have 3: "\<exists>results. fst (Metrics_compute sv prefix True reg w) = Inr results"
    if "\<forall>k a. (k, Metric a) \<in> set reg \<longrightarrow> well_shaped (heap w a)"
    unfolding local using that by (rule Metrics_compute_items_ok)
  have 4: "(\<forall>k x. (k, Plain x) \<in> set reg \<longrightarrow> results (prefix @ k) = Some (Passed x)) \<and>
           (\<forall>k a. (k, Metric a) \<in> set reg \<longrightarrow> (\<exists>v. results (prefix @ k) = Some (Float v)))"
    if "fst (Metrics_compute sv prefix True reg w) = Inr results \<and> distinct (map fst reg)"
    for results
  proof -
    have "Metrics_compute_items sv prefix False reg Map.empty [] w =
        (Inr results, snd (Metrics_compute_items sv prefix False reg Map.empty [] w))"
      using that unfolding local by (simp add: prod_eq_iff)
    from Metrics_compute_items_results [OF this] that show ?thesis by blast
  qed
  show ?thesis using 1 2 3 4 by blast
qed

theorem Metrics_compute_single_worker_witness:
  "get_world_size sv0 = 1 \<and> distinct (map fst registry0) \<and>
   (''epoch'', Plain 3) \<in> set registry0 \<and>
   fst (snd (Metrics_compute sv0 ''eval_'' True registry0 world0)) = [] \<and>
   (\<exists>results. fst (Metrics_compute sv0 ''eval_'' True registry0 world0) = Inr results \<and>
      results ''eval_epoch'' = Some (Passed 3) \<and>
      results ''eval_throughput'' = Some (Float (Fin 1)))"
proof -
  have ws: "get_world_size sv0 = 1" by (simp add: sv0_def)
  have d: "distinct (map fst registry0)" by (simp add: registry0_def)
  have p: "(''epoch'', Plain 3) \<in> set registry0" by (simp add: registry0_def)
  note i = Metrics_compute_single_worker [OF ws, of "sync_and_compute sv0" "''eval_''" registry0 world0]
  have s: "fst (snd (Metrics_compute sv0 ''eval_'' True registry0 world0)) = []"
    using i by blast
  obtain results where r: "fst (Metrics_compute sv0 ''eval_'' True registry0 world0) = Inr results"
    and t: "results ''eval_throughput'' = Some (Float (Fin 1))"
    using Metrics_compute_registry0 by blast
  have "results (''eval_'' @ ''epoch'') = Some (Passed 3)"
    using i r d p by blast
  then have "results ''eval_epoch'' = Some (Passed 3)" by simp
  then show ?thesis using ws d p s r t by blast
qed

section \<open>Properties of the Filter Stage\<close>

text \<open>
  C2. For every upstream sequence \<open>xs\<close> and every predicate \<open>q\<close> that never raises, a pass
  over the Filter Stage ends normally and has yielded exactly the elements of \<open>xs\<close> that
  \<open>q\<close> accepts, in the order of \<open>xs\<close>; after \<^verbatim>\<open>reset()\<close> a second pass yields the same
  sequence again.
\<close>

theorem filter_stage_yields_filter:
  "consume (\<lambda>x. Inr (q x)) (read_sequence_filter xs) [] =
     (Inr (), filter q xs, \<lparr>source = xs, rest = []\<rparr>) \<and>
   consume (\<lambda>x. Inr (q x))
     (filter_reset (snd (snd (consume (\<lambda>x. Inr (q x)) (read_sequence_filter xs) [])))) [] =
     (Inr (), filter q xs, \<lparr>source = xs, rest = []\<rparr>)"
  by (simp add: read_sequence_filter_def filter_reset_def consume_total)

theorem filter_stage_yields_filter_witness:
  "consume is_odd (read_sequence_filter [1, 2, 3, 4, 5, 6, 7, 8, 9]) [] =
     (Inr (), [1, 3, 5, 7, 9], \<lparr>source = [1, 2, 3, 4, 5, 6, 7, 8, 9], rest = []\<rparr>) \<and>
   consume is_odd
     (filter_reset (snd (snd (consume is_odd (read_sequence_filter [1, 2, 3, 4, 5, 6, 7, 8, 9]) [])))) [] =
     (Inr (), [1, 3, 5, 7, 9], \<lparr>source = [1, 2, 3, 4, 5, 6, 7, 8, 9], rest = []\<rparr>)"
proof -
  have odd: "is_odd = (\<lambda>x. Inr (x mod 2 = 1))" by (simp add: is_odd_def fun_eq_iff)
  show ?thesis
    unfolding odd
    using filter_stage_yields_filter [of "\<lambda>x :: int. x mod 2 = 1" "[1, 2, 3, 4, 5, 6, 7, 8, 9]"]
    by simp
qed

text \<open>
  C3. Let the predicate raise \<open>e\<close> on the upstream element \<open>x\<close> and return a verdict on
  each of the elements \<open>pre\<close> before it. Then the pass fails with \<open>e\<close> itself when \<open>x\<close> is
  reached: by then exactly the accepted elements of \<open>pre\<close> have been yielded, and none of
  the elements \<open>post\<close> after \<open>x\<close> has been pulled (they are still ahead of the cursor).
  A \<^verbatim>\<open>reset()\<close> after the failure gives the stage as it was first built.
\<close>

theorem filter_stage_propagates_failure:
  assumes "fn x = Inl e" and "\<forall>y \<in> set pre. \<exists>b. fn y = Inr b"
  shows "consume fn (read_sequence_filter (pre @ x # post)) [] =
           (Inl e, filter (\<lambda>y. fn y = Inr True) pre,
            \<lparr>source = pre @ x # post, rest = post\<rparr>) \<and>
         filter_reset \<lparr>source = pre @ x # post, rest = post\<rparr> =
           read_sequence_filter (pre @ x # post)"
  using consume_fails [OF assms, of "pre @ x # post" post "[]"]
  by (simp add: read_sequence_filter_def filter_reset_def)

theorem filter_stage_propagates_failure_witness:
  "raises_on_3 3 = Inl ValueError \<and>
   raises_on_3 1 = Inr True \<and> raises_on_3 2 = Inr True \<and>
   consume raises_on_3 (read_sequence_filter [1, 2, 3, 4]) [] =
     (Inl ValueError, [1, 2], \<lparr>source = [1, 2, 3, 4], rest = [4]\<rparr>) \<and>
   filter_reset \<lparr>source = [1, 2, 3, 4 :: int], rest = [4]\<rparr> = read_sequence_filter [1, 2, 3, 4]"
proof -
  have h1: "raises_on_3 3 = Inl ValueError" by (simp add: raises_on_3_def)
  have h2: "\<forall>y \<in> set [1, 2]. \<exists>b. raises_on_3 y = Inr b" by (auto simp: raises_on_3_def)
  have v: "raises_on_3 1 = Inr True" "raises_on_3 2 = Inr True" by (simp_all add: raises_on_3_def)
  show ?thesis
    using h1 v filter_stage_propagates_failure [OF h1 h2, of "[4]"]
    by simp
qed

end
